theory Spec2Isabelle
  imports Complex_Main "HOL-Library.Word"
begin

section \<open>JavaScript strings\<close>

text \<open>
  A JavaScript string is a sequence of UTF-16 code units.  ASCII literals of the
  source are written \<open>js ''...''\<close>; the prompt glyph U+276F is the code unit
  \<open>0x276F\<close>.
\<close>

type_synonym jschar = "16 word"
type_synonym jsstring = "jschar list"

definition js :: "string \<Rightarrow> jsstring" where
  "js s = map of_char s"

text \<open>Truthiness of a possibly undefined string: defined and not empty.\<close>

fun truthy :: "jsstring option \<Rightarrow> bool" where
  "truthy None = False"
| "truthy (Some s) = (s \<noteq> [])"

section \<open>Focus arbiter (\<open>render\<close>, lines 299-302; keypress handler, lines 347-349)\<close>

datatype Focus = FocusGame | FocusCopilot

datatype HookState = Busy | Idle | Unknown

text \<open>
  The module-level variables the arbiter reads: \<open>manualFocus\<close> is
  \<open>Focus | null\<close>, so \<open>None\<close> is the automatic mode.
\<close>

record arbiter =
  promptDetected :: bool
  hookState :: HookState
  manualFocus :: "Focus option"

text \<open>\<open>const waiting = promptDetected || hookState === "idle"\<close>\<close>

definition waiting :: "arbiter \<Rightarrow> bool" where
  "waiting a = (promptDetected a \<or> hookState a = Idle)"

text \<open>\<open>manualFocus ?? (waiting ? "copilot" : "game")\<close>, as \<open>render\<close> computes it.\<close>

definition render_focus :: "arbiter \<Rightarrow> Focus" where
  "render_focus a =
     (case manualFocus a of
        Some f \<Rightarrow> f
      | None \<Rightarrow> (if waiting a then FocusCopilot else FocusGame))"

text \<open>\<open>const status = waiting ? "PAUSED" : "RUNNING"\<close>\<close>

definition render_status :: "arbiter \<Rightarrow> string" where
  "render_status a = (if waiting a then ''PAUSED'' else ''RUNNING'')"

text \<open>The same two lines at the head of the keypress handler.\<close>

definition keypress_focus :: "arbiter \<Rightarrow> Focus" where
  "keypress_focus a =
     (let w = (promptDetected a \<or> hookState a = Idle)
      in case manualFocus a of
           Some f \<Rightarrow> f
         | None \<Rightarrow> (if w then FocusCopilot else FocusGame))"

text \<open>
  The specification's wording: a three-valued override and the rule
  \<open>focus = override != none ? override : (waiting ? driven-process : game)\<close>.
\<close>

datatype override = OverrideNone | OverrideGame | OverrideDriven

fun override_of :: "Focus option \<Rightarrow> override" where
  "override_of None = OverrideNone"
| "override_of (Some FocusGame) = OverrideGame"
| "override_of (Some FocusCopilot) = OverrideDriven"

fun spec_focus :: "override \<Rightarrow> bool \<Rightarrow> HookState \<Rightarrow> Focus" where
  "spec_focus OverrideGame pd hs = FocusGame"
| "spec_focus OverrideDriven pd hs = FocusCopilot"
| "spec_focus OverrideNone pd hs = (if pd \<or> hs = Idle then FocusCopilot else FocusGame)"

section \<open>Output buffer (\<open>class OutputBuffer\<close>, lines 13-35)\<close>

text \<open>\<open>ANSI_RE = /\x1b\[[0-9;?]*[A-Za-z]/g\<close>: the character classes.\<close>

definition is_param :: "jschar \<Rightarrow> bool" where
  "is_param c = ((0x30 \<le> c \<and> c \<le> 0x39) \<or> c = 0x3B \<or> c = 0x3F)"

definition is_letter :: "jschar \<Rightarrow> bool" where
  "is_letter c = ((0x41 \<le> c \<and> c \<le> 0x5A) \<or> (0x61 \<le> c \<and> c \<le> 0x7A))"

text \<open>
  The rest of one match after its \<open>ESC\<close>: a \<open>[\<close>, the longest run of parameter
  characters, one letter.  The two classes are disjoint, so backtracking into the
  run never finds a letter.  The result is the text after the match.
\<close>

definition csi_tail :: "jsstring \<Rightarrow> jsstring option" where
  "csi_tail s =
     (case s of
        [] \<Rightarrow> None
      | b # r \<Rightarrow>
          if b = 0x5B then
            (case dropWhile is_param r of
               [] \<Rightarrow> None
             | l # r' \<Rightarrow> if is_letter l then Some r' else None)
          else None)"

lemma csi_tail_shorter: "csi_tail s = Some r \<Longrightarrow> length r < length s"
proof -
  assume a: "csi_tail s = Some r"
  then obtain b t where s: "s = b # t" by (cases s) (simp_all add: csi_tail_def)
  from a s obtain l where d: "dropWhile is_param t = l # r"
    by (auto simp: csi_tail_def split: if_splits list.splits)
  have "length (dropWhile is_param t) \<le> length t" by (rule length_dropWhile_le)
  with d s show ?thesis by simp
qed

text \<open>
  \<open>text.replace(ANSI_RE, "")\<close>: a global replace scans left to right, deletes a
  match where one starts and resumes after it, and otherwise keeps the character.
\<close>

function strip_ansi :: "jsstring \<Rightarrow> jsstring" where
  "strip_ansi [] = []"
| "strip_ansi (c # cs) =
     (if c = 0x1B then
        (case csi_tail cs of
           Some rest \<Rightarrow> strip_ansi rest
         | None \<Rightarrow> c # strip_ansi cs)
      else c # strip_ansi cs)"
  by pat_completeness auto
termination
  by (relation "measure length") (auto dest: csi_tail_shorter)

text \<open>\<open>.replace(/\r/g, "")\<close>\<close>

definition strip_cr :: "jsstring \<Rightarrow> jsstring" where
  "strip_cr s = filter (\<lambda>c. c \<noteq> 0x0D) s"

text \<open>\<open>cleaned.split("\n")\<close>: never empty, \<open>"".split("\n")\<close> is \<open>[""]\<close>.\<close>

fun split_nl :: "jsstring \<Rightarrow> jsstring list" where
  "split_nl [] = [[]]"
| "split_nl (c # cs) =
     (if c = 0x0A then [] # split_nl cs
      else (c # hd (split_nl cs)) # tl (split_nl cs))"

record OutputBuffer =
  lines :: "jsstring list"
  partial :: jsstring

definition OutputBuffer_new :: OutputBuffer where
  "OutputBuffer_new = \<lparr>lines = [], partial = []\<rparr>"

text \<open>\<open>xs.slice(-n)\<close>: the last \<open>n\<close> elements.\<close>

definition slice_last :: "nat \<Rightarrow> 'a list \<Rightarrow> 'a list" where
  "slice_last n xs = drop (length xs - n) xs"

text \<open>
  \<open>this.lines.push(...parts.slice(1, -1))\<close> is a spread call: every element of
  the array is one argument.  An engine takes only so many arguments in one call
  (V8: as many as fit on the free stack, on the order of \<open>10\<^sup>5\<close>) and throws a
  \<open>RangeError\<close> when there are more, before anything is pushed.  \<open>max_args\<close> is
  the largest number the engine takes.

  A call of \<open>append\<close> returns, or throws out of the spread call; either way the
  buffer is as the statements run so far have left it.
\<close>

datatype append_result = Returned OutputBuffer | RangeError OutputBuffer

fun buffer_of :: "append_result \<Rightarrow> OutputBuffer" where
  "buffer_of (Returned b) = b"
| "buffer_of (RangeError b) = b"

text \<open>
  \<open>append(text)\<close>.  \<open>parts.slice(1, -1)\<close> is \<open>butlast (tl parts)\<close>, and
  \<open>parts[parts.length - 1]\<close> is \<open>last parts\<close>.  The first \<open>push\<close> has run when
  the second throws; \<open>partial\<close> is not yet reset and the truncation has not run.
\<close>

definition append_text :: "nat \<Rightarrow> OutputBuffer \<Rightarrow> jsstring \<Rightarrow> append_result" where
  "append_text max_args b text =
     (let cleaned = strip_cr (strip_ansi text);
          parts = split_nl cleaned
      in if length parts = 1 then Returned (b\<lparr>partial := partial b @ hd parts\<rparr>)
         else
           (let b1 = b\<lparr>lines := lines b @ [partial b @ hd parts]\<rparr>
            in if max_args < length (butlast (tl parts)) then RangeError b1
               else
                 (let ls = lines b1 @ butlast (tl parts)
                  in Returned
                       \<lparr>lines = (if length ls > 2000 then slice_last 2000 ls else ls),
                        partial = last parts\<rparr>)))"

text \<open>\<open>snapshot()\<close>\<close>

definition snapshot :: "OutputBuffer \<Rightarrow> jsstring list" where
  "snapshot b = (if partial b \<noteq> [] then lines b @ [partial b] else lines b)"

text \<open>
  A sequence of \<open>append\<close> calls on a new buffer, one per chunk, each on the
  buffer the call before it left.
\<close>

definition feed :: "nat \<Rightarrow> jsstring list \<Rightarrow> OutputBuffer" where
  "feed max_args chunks =
     foldl (\<lambda>b text. buffer_of (append_text max_args b text)) OutputBuffer_new chunks"

text \<open>The two \<open>replace\<close> calls together, and the number of newlines of a text.\<close>

definition cleaned :: "jsstring \<Rightarrow> jsstring" where
  "cleaned text = strip_cr (strip_ansi text)"

definition newlines :: "jsstring \<Rightarrow> nat" where
  "newlines s = length (filter (\<lambda>c. c = 0x0A) s)"

text \<open>
  The buffer \<open>append\<close> returns when the spread call is accepted, as a function of
  the cleaned text; the two branches of the truncation are one \<open>slice_last\<close>, which
  keeps a list of at most 2000 lines whole.
\<close>

definition push :: "OutputBuffer \<Rightarrow> jsstring \<Rightarrow> OutputBuffer" where
  "push b c =
     (let parts = split_nl c
      in if length parts = 1 then b\<lparr>partial := partial b @ hd parts\<rparr>
         else \<lparr>lines = slice_last 2000 (lines b @ [partial b @ hd parts] @ butlast (tl parts)),
               partial = last parts\<rparr>)"

section \<open>Prompt detector (\<open>detectPrompt\<close>, lines 149-158)\<close>

text \<open>
  \<open>String.prototype.trim\<close> removes white space and line terminators at both ends:
  TAB, LF, VT, FF, CR, SP, NBSP, U+1680, U+2000..U+200A, U+2028, U+2029, U+202F,
  U+205F, U+3000, U+FEFF.
\<close>

definition is_ws :: "jschar \<Rightarrow> bool" where
  "is_ws c =
     ((0x09 \<le> c \<and> c \<le> 0x0D) \<or> c = 0x20 \<or> c = 0xA0 \<or> c = 0x1680
      \<or> (0x2000 \<le> c \<and> c \<le> 0x200A) \<or> c = 0x2028 \<or> c = 0x2029 \<or> c = 0x202F
      \<or> c = 0x205F \<or> c = 0x3000 \<or> c = 0xFEFF)"

definition trim :: "jsstring \<Rightarrow> jsstring" where
  "trim s = rev (dropWhile is_ws (rev (dropWhile is_ws s)))"

text \<open>
  A regular expression without the \<open>g\<close> or \<open>y\<close> flag is used here through
  \<open>test\<close> alone, which keeps no state: it is the set of strings it accepts.
\<close>

type_synonym RegExp = "jsstring \<Rightarrow> bool"

text \<open>
  \<open>/^lit ?$/\<close>: no \<open>m\<close> flag, so the anchors are the two ends of the string; the
  accepted strings are \<open>lit\<close> and \<open>lit\<close> followed by one space.
\<close>

definition prompt_re :: "jsstring \<Rightarrow> RegExp" where
  "prompt_re lit = (\<lambda>s. s = lit \<or> s = lit @ [0x20])"

text \<open>\<open>DEFAULT_PROMPTS = [/^> ?$/, /^copilot> ?$/, /^\u276f ?$/]\<close>\<close>

definition DEFAULT_PROMPTS :: "RegExp list" where
  "DEFAULT_PROMPTS = [prompt_re (js ''>''), prompt_re (js ''copilot>''), prompt_re [0x276F]]"

text \<open>
  The loop \<open>for (i = lines.length - 1; i >= 0; i -= 1)\<close>, with \<open>n = i + 1\<close> lines
  still to visit.  \<open>patterns.some(...)\<close> is \<open>list_ex\<close>.
\<close>

fun detectPrompt_from :: "jsstring list \<Rightarrow> RegExp list \<Rightarrow> nat \<Rightarrow> bool" where
  "detectPrompt_from ls patterns 0 = False"
| "detectPrompt_from ls patterns (Suc i) =
     (let line = trim (ls ! i)
      in if line = [] then detectPrompt_from ls patterns i
         else list_ex (\<lambda>pattern. pattern line) patterns)"

definition detectPrompt :: "jsstring list \<Rightarrow> RegExp list \<Rightarrow> bool" where
  "detectPrompt ls patterns = detectPrompt_from ls patterns (length ls)"

text \<open>
  The specification's wording: the first line from the end that is not white space
  only, trimmed, is tested against the patterns; with no such line the answer is
  false.
\<close>

definition blank :: "jsstring \<Rightarrow> bool" where
  "blank l = list_all is_ws l"

definition spec_detect :: "jsstring list \<Rightarrow> RegExp list \<Rightarrow> bool" where
  "spec_detect ls patterns =
     (case find (\<lambda>l. \<not> blank l) (rev ls) of
        None \<Rightarrow> False
      | Some l \<Rightarrow> (\<exists>pattern. pattern \<in> set patterns \<and> pattern (trim l)))"

section \<open>Hook state reader (\<open>readHookState\<close>, lines 160-180; \<open>refreshHookState\<close>, lines 323-332)\<close>

text \<open>
  What a \<open>try\<close> block can catch here: a file-system error carrying an errno
  \<open>code\<close>, the \<open>SyntaxError\<close> of \<open>JSON.parse\<close>, and the \<open>TypeError\<close> of a
  property read on \<open>null\<close>.  Only the first has a \<open>code\<close>.
\<close>

datatype js_error = ErrnoException jsstring | SyntaxError | TypeError

fun error_code :: "js_error \<Rightarrow> jsstring option" where
  "error_code (ErrnoException c) = Some c"
| "error_code SyntaxError = None"
| "error_code TypeError = None"

text \<open>The values \<open>JSON.parse\<close> returns; an object is its list of properties.\<close>

datatype json =
    JNull
  | JBool bool
  | JNumber real
  | JString jsstring
  | JArray "json list"
  | JObject "(jsstring \<times> json) list"

text \<open>
  \<open>parsed.state\<close>: a \<open>TypeError\<close> on \<open>null\<close>, the property of an object when it
  has one, \<open>undefined\<close> (\<open>None\<close>) on every other value.
\<close>

fun get_state :: "json \<Rightarrow> js_error + json option" where
  "get_state JNull = Inl TypeError"
| "get_state (JObject props) = Inr (map_of props (js ''state''))"
| "get_state v = Inr None"

text \<open>
  The library calls the reader makes, as the environment it runs in:
  \<open>fs.statSync(path).mtimeMs\<close>, \<open>fs.readFileSync(path, "utf8")\<close> and
  \<open>JSON.parse\<close>.  The first two return their value or the error they throw;
  \<open>JSON.parse\<close> throws nothing but a \<open>SyntaxError\<close>, which is \<open>None\<close>.
\<close>

record hook_env =
  statSync :: "jsstring \<Rightarrow> js_error + real"
  readFileSync :: "jsstring \<Rightarrow> js_error + jsstring"
  JSON_parse :: "jsstring \<Rightarrow> json option"

text \<open>
  The \<open>try\<close> block: \<open>Inl\<close> is a thrown error, \<open>Inr (Some r)\<close> a \<open>return r\<close>
  inside the block, \<open>Inr None\<close> the block ending without a return.
\<close>

definition readHookState_try ::
  "hook_env \<Rightarrow> jsstring \<Rightarrow> real option \<Rightarrow> js_error + (HookState \<times> real option) option" where
  "readHookState_try env stateFile previousMtime =
     (case statSync env stateFile of
        Inl e \<Rightarrow> Inl e
      | Inr mtimeMs \<Rightarrow>
          if previousMtime \<noteq> None \<and> Some mtimeMs = previousMtime
          then Inr (Some (Unknown, previousMtime))
          else
            (case readFileSync env stateFile of
               Inl e \<Rightarrow> Inl e
             | Inr raw \<Rightarrow>
                 (case JSON_parse env raw of
                    None \<Rightarrow> Inl SyntaxError
                  | Some parsed \<Rightarrow>
                      (case get_state parsed of
                         Inl e \<Rightarrow> Inl e
                       | Inr st \<Rightarrow>
                           if st = Some (JString (js ''busy''))
                           then Inr (Some (Busy, Some mtimeMs))
                           else if st = Some (JString (js ''idle''))
                           then Inr (Some (Idle, Some mtimeMs))
                           else Inr None))))"

text \<open>The \<open>catch\<close> clause and the final \<open>return\<close>.\<close>

definition readHookState ::
  "hook_env \<Rightarrow> jsstring \<Rightarrow> real option \<Rightarrow> HookState \<times> real option" where
  "readHookState env stateFile previousMtime =
     (case readHookState_try env stateFile previousMtime of
        Inr (Some r) \<Rightarrow> r
      | Inr None \<Rightarrow> (Unknown, None)
      | Inl error \<Rightarrow>
          if error_code error \<noteq> Some (js ''ENOENT'')
          then (Unknown, previousMtime)
          else (Unknown, None))"

text \<open>\<open>refreshHookState\<close> on the pair \<open>(hookState, hookMtime)\<close>.\<close>

definition refreshHookState ::
  "hook_env \<Rightarrow> jsstring \<Rightarrow> HookState \<times> real option \<Rightarrow> HookState \<times> real option" where
  "refreshHookState env stateFile cur =
     (let (state, mtime) = readHookState env stateFile (snd cur)
      in if mtime \<noteq> None \<and> mtime \<noteq> snd cur then (state, mtime)
         else if mtime = None then (Unknown, None)
         else cur)"

text \<open>
  One state file for the examples: its modification time, its content, and the
  value of \<open>JSON.parse\<close> on the texts used (the text of the hook script's
  \<open>printf\<close> for idle and busy, the same with a state the reader does not know,
  and \<open>null\<close>); any other text is taken as malformed.
\<close>

definition idle_text :: jsstring where
  "idle_text = js ''{\"state\":\"idle\",\"timestamp\":1}''"

definition busy_text :: jsstring where
  "busy_text = js ''{\"state\":\"busy\",\"timestamp\":2}''"

definition other_text :: jsstring where
  "other_text = js ''{\"state\":\"done\",\"timestamp\":3}''"

definition parse_table :: "jsstring \<Rightarrow> json option" where
  "parse_table raw =
     (if raw = idle_text
      then Some (JObject [(js ''state'', JString (js ''idle'')), (js ''timestamp'', JNumber 1)])
      else if raw = busy_text
      then Some (JObject [(js ''state'', JString (js ''busy'')), (js ''timestamp'', JNumber 2)])
      else if raw = other_text
      then Some (JObject [(js ''state'', JString (js ''done'')), (js ''timestamp'', JNumber 3)])
      else if raw = js ''null'' then Some JNull
      else None)"

definition file_env :: "real \<Rightarrow> jsstring \<Rightarrow> hook_env" where
  "file_env mtimeMs content =
     \<lparr>statSync = (\<lambda>path. Inr mtimeMs),
      readFileSync = (\<lambda>path. Inr content),
      JSON_parse = parse_table\<rparr>"

definition missing_env :: hook_env where
  "missing_env =
     \<lparr>statSync = (\<lambda>path. Inl (ErrnoException (js ''ENOENT''))),
      readFileSync = (\<lambda>path. Inl (ErrnoException (js ''ENOENT''))),
      JSON_parse = parse_table\<rparr>"

text \<open>
  A parsed value without a state the reader knows: the property read succeeds and
  gives neither \<open>"busy"\<close> nor \<open>"idle"\<close>.
\<close>

definition no_known_state :: "json \<Rightarrow> bool" where
  "no_known_state v =
     (case get_state v of
        Inl e \<Rightarrow> False
      | Inr st \<Rightarrow> st \<noteq> Some (JString (js ''busy'')) \<and> st \<noteq> Some (JString (js ''idle'')))"

section \<open>Input router (\<open>sendToCopilot\<close>, lines 182-215; keypress handler, lines 347-368)\<close>

text \<open>
  The key event of the terminal library: \<open>key.name\<close> and \<open>key.sequence\<close>, either
  of which may be undefined.  The pseudo-terminal is the list of the strings written
  to it, oldest first: one \<open>ptyProcess.write\<close> call appends one element.
\<close>

record KeyEvent =
  name :: "jsstring option"
  sequence :: "jsstring option"

type_synonym Pty = "jsstring list"

definition sendToCopilot :: "Pty \<Rightarrow> KeyEvent \<Rightarrow> jsstring option \<Rightarrow> Pty" where
  "sendToCopilot ptyProcess key ch =
     (let seq = sequence key
      in if name key = Some (js ''enter'') then ptyProcess @ [[0x0D]]
         else if name key = Some (js ''backspace'') then ptyProcess @ [[0x7F]]
         else if name key = Some (js ''up'') then ptyProcess @ [[0x1B, 0x5B, 0x41]]
         else if name key = Some (js ''down'') then ptyProcess @ [[0x1B, 0x5B, 0x42]]
         else if name key = Some (js ''left'') then ptyProcess @ [[0x1B, 0x5B, 0x44]]
         else if name key = Some (js ''right'') then ptyProcess @ [[0x1B, 0x5B, 0x43]]
         else if truthy seq then (case seq of Some s \<Rightarrow> ptyProcess @ [s] | None \<Rightarrow> ptyProcess)
         else if truthy ch then (case ch of Some c \<Rightarrow> ptyProcess @ [c] | None \<Rightarrow> ptyProcess)
         else ptyProcess)"

text \<open>
  What the keypress handler does to the pseudo-terminal: with the focus on the game
  it writes nothing (it moves or resets the game, or ignores the key), otherwise it
  calls \<open>sendToCopilot(ptyProcess, key, ch ?? undefined)\<close>.
\<close>

definition keypress_pty :: "arbiter \<Rightarrow> Pty \<Rightarrow> KeyEvent \<Rightarrow> jsstring option \<Rightarrow> Pty" where
  "keypress_pty a ptyProcess key ch =
     (if keypress_focus a = FocusGame then ptyProcess
      else sendToCopilot ptyProcess key ch)"

text \<open>
  The specification's table of what is forwarded: the control sequence of a named
  key, else a raw sequence, else the character; \<open>None\<close> when the key carries
  neither.
\<close>

definition named_keys :: "(jsstring \<times> jsstring) list" where
  "named_keys =
     [(js ''enter'', [0x0D]), (js ''backspace'', [0x7F]),
      (js ''up'', 0x1B # js ''[A''), (js ''down'', 0x1B # js ''[B''),
      (js ''left'', 0x1B # js ''[D''), (js ''right'', 0x1B # js ''[C'')]"

definition nonempty :: "jsstring option \<Rightarrow> jsstring option" where
  "nonempty s = (if s = Some [] then None else s)"

definition forwarded :: "KeyEvent \<Rightarrow> jsstring option \<Rightarrow> jsstring option" where
  "forwarded key ch =
     (case (case name key of None \<Rightarrow> None | Some n \<Rightarrow> map_of named_keys n) of
        Some bytes \<Rightarrow> Some bytes
      | None \<Rightarrow>
          (case nonempty (sequence key) of
             Some s \<Rightarrow> Some s
           | None \<Rightarrow> nonempty ch))"

section \<open>Game (\<open>class Game\<close>, lines 37-99)\<close>

text \<open>
  The fields of the class; \<open>player\<close> and \<open>target\<close> are the two coordinates each.
  The sizes and coordinates are the integers the caller passes and the arithmetic
  below keeps.
\<close>

record Game =
  width :: int
  height :: int
  player_x :: int
  player_y :: int
  target_x :: int
  target_y :: int
  score :: int

definition Game_new :: Game where
  "Game_new =
     \<lparr>width = 10, height = 6, player_x = 0, player_y = 0,
      target_x = 0, target_y = 0, score = 0\<rparr>"

text \<open>
  \<open>Math.random()\<close> is read from a tape: the values the calls return, in call order,
  each in \<open>[0, 1)\<close>.  A call returns the rest of the tape with its result, and
  \<open>None\<close> when the tape ends before the loop does.

  The \<open>while (true)\<close> loop of \<open>placeTarget\<close>: draw \<open>x\<close>, draw \<open>y\<close>, leave when the
  cell is not the player's.
\<close>

fun placeTarget_loop :: "Game \<Rightarrow> real list \<Rightarrow> (Game \<times> real list) option" where
  "placeTarget_loop g (rx # ry # rs) =
     (let x = \<lfloor>rx * of_int (width g)\<rfloor>;
          y = \<lfloor>ry * of_int (height g)\<rfloor>
      in if x \<noteq> player_x g \<or> y \<noteq> player_y g
         then Some (g\<lparr>target_x := x, target_y := y\<rparr>, rs)
         else placeTarget_loop g rs)"
| "placeTarget_loop g rs = None"

definition placeTarget :: "Game \<Rightarrow> real list \<Rightarrow> (Game \<times> real list) option" where
  "placeTarget g rs =
     (if width g \<le> 1 \<or> height g \<le> 1 then Some (g\<lparr>target_x := 0, target_y := 0\<rparr>, rs)
      else placeTarget_loop g rs)"

definition resize :: "Game \<Rightarrow> int \<Rightarrow> int \<Rightarrow> real list \<Rightarrow> (Game \<times> real list) option" where
  "resize g w h rs =
     (let g1 = g\<lparr>width := max 5 w\<rparr>;
          g2 = g1\<lparr>height := max 5 h\<rparr>;
          g3 = g2\<lparr>player_x := min (player_x g2) (width g2 - 1)\<rparr>;
          g4 = g3\<lparr>player_y := min (player_y g3) (height g3 - 1)\<rparr>
      in placeTarget g4 rs)"

definition reset :: "Game \<Rightarrow> real list \<Rightarrow> (Game \<times> real list) option" where
  "reset g rs =
     (let g1 = g\<lparr>score := 0\<rparr>;
          g2 = g1\<lparr>player_x := width g1 div 2, player_y := height g1 div 2\<rparr>
      in placeTarget g2 rs)"

definition move :: "Game \<Rightarrow> int \<Rightarrow> int \<Rightarrow> real list \<Rightarrow> (Game \<times> real list) option" where
  "move g dx dy rs =
     (let g1 = g\<lparr>player_x := max 0 (min (width g - 1) (player_x g + dx))\<rparr>;
          g2 = g1\<lparr>player_y := max 0 (min (height g1 - 1) (player_y g1 + dy))\<rparr>
      in if player_x g2 = target_x g2 \<and> player_y g2 = target_y g2
         then placeTarget (g2\<lparr>score := score g2 + 1\<rparr>) rs
         else Some (g2, rs))"

text \<open>A sequence of calls on one game, each call continuing on the tape the last left.\<close>

datatype GameOp = Move int int | Resize int int | Reset

fun exec :: "GameOp \<Rightarrow> Game \<Rightarrow> real list \<Rightarrow> (Game \<times> real list) option" where
  "exec (Move dx dy) g rs = move g dx dy rs"
| "exec (Resize w h) g rs = resize g w h rs"
| "exec Reset g rs = reset g rs"

fun run :: "GameOp list \<Rightarrow> Game \<Rightarrow> real list \<Rightarrow> (Game \<times> real list) option" where
  "run [] g rs = Some (g, rs)"
| "run (op # ops) g rs =
     (case exec op g rs of
        None \<Rightarrow> None
      | Some (g', rs') \<Rightarrow> run ops g' rs')"

text \<open>
  The tape holds a draw that ends the loop for a player at \<open>(px, py)\<close> on a
  \<open>w\<close> by \<open>h\<close> grid: some pair of draws, at an even position, is another cell.
\<close>

fun fresh_draw :: "int \<Rightarrow> int \<Rightarrow> int \<Rightarrow> int \<Rightarrow> real list \<Rightarrow> bool" where
  "fresh_draw w h px py (rx # ry # rs) =
     (\<lfloor>rx * of_int w\<rfloor> \<noteq> px \<or> \<lfloor>ry * of_int h\<rfloor> \<noteq> py \<or> fresh_draw w h px py rs)"
| "fresh_draw w h px py rs = False"

text \<open>The cell a \<open>move(dx, dy)\<close> puts the player on: its first two statements.\<close>

definition landing_x :: "Game \<Rightarrow> int \<Rightarrow> int" where
  "landing_x g dx = max 0 (min (width g - 1) (player_x g + dx))"

definition landing_y :: "Game \<Rightarrow> int \<Rightarrow> int" where
  "landing_y g dy = max 0 (min (height g - 1) (player_y g + dy))"

section \<open>Command line (\<open>parseArgs\<close>, lines 108-137)\<close>

record Args =
  copilot :: jsstring
  stateFile :: jsstring
  promptPatterns :: "RegExp list"
  copilotArgs :: "jsstring list"

text \<open>
  The two ways \<open>parseArgs\<close> does not return: \<open>--help\<close> prints the usage and calls
  \<open>process.exit(0)\<close>; \<open>new RegExp(source)\<close> throws on a malformed source.
\<close>

datatype parse_exit = HelpExit | RegExpError jsstring

text \<open>
  What \<open>parseArgs\<close> reads from its process: the environment variable
  \<open>COPILOT_HOOKS_STATE\<close>, the value of
  \<open>path.join(os.homedir(), ".copilot", "hooks-state.json")\<close>, and the regular
  expression compiler (\<open>None\<close> when it throws).
\<close>

record process_env =
  COPILOT_HOOKS_STATE :: "jsstring option"
  home_state_path :: jsstring
  RegExp_new :: "jsstring \<Rightarrow> RegExp option"

text \<open>
  The \<open>for\<close> loop over \<open>wrapperArgs\<close>, from index \<open>i\<close>; the record holds the
  variables \<open>copilot\<close>, \<open>stateFile\<close> and \<open>promptPatterns\<close> (and \<open>copilotArgs\<close>,
  which the loop does not touch).  \<open>wrapperArgs[i + 1]\<close> is undefined past the end.
\<close>

function parseArgs_loop ::
  "(jsstring \<Rightarrow> RegExp option) \<Rightarrow> jsstring list \<Rightarrow> nat \<Rightarrow> Args \<Rightarrow> parse_exit + Args" where
  "parseArgs_loop mk wrapperArgs i acc =
     (if i < length wrapperArgs then
        (let arg = wrapperArgs ! i;
             nxt = (if i + 1 < length wrapperArgs then Some (wrapperArgs ! (i + 1)) else None)
         in if arg = js ''--copilot'' \<and> truthy nxt
            then parseArgs_loop mk wrapperArgs (i + 2) (acc\<lparr>copilot := wrapperArgs ! (i + 1)\<rparr>)
            else if arg = js ''--state-file'' \<and> truthy nxt
            then parseArgs_loop mk wrapperArgs (i + 2) (acc\<lparr>stateFile := wrapperArgs ! (i + 1)\<rparr>)
            else if arg = js ''--prompt-regex'' \<and> truthy nxt
            then (case mk (wrapperArgs ! (i + 1)) of
                    None \<Rightarrow> Inl (RegExpError (wrapperArgs ! (i + 1)))
                  | Some re \<Rightarrow>
                      parseArgs_loop mk wrapperArgs (i + 2)
                        (acc\<lparr>promptPatterns := promptPatterns acc @ [re]\<rparr>))
            else if arg = js ''--help'' then Inl HelpExit
            else parseArgs_loop mk wrapperArgs (i + 1) acc)
      else Inr acc)"
  by pat_completeness auto
termination
  by (relation "measure (\<lambda>(mk, wrapperArgs, i, acc). length wrapperArgs - i)") auto

declare parseArgs_loop.simps [simp del]

text \<open>The configuration before the loop, and \<open>parseArgs\<close>.\<close>

definition default_stateFile :: "process_env \<Rightarrow> jsstring" where
  "default_stateFile env =
     (case COPILOT_HOOKS_STATE env of
        Some v \<Rightarrow> if v \<noteq> [] then v else home_state_path env
      | None \<Rightarrow> home_state_path env)"

definition parseArgs :: "process_env \<Rightarrow> jsstring list \<Rightarrow> parse_exit + Args" where
  "parseArgs env argv =
     (let sep = (js ''--'' \<in> set argv);
          wrapperArgs = (if sep then takeWhile (\<lambda>a. a \<noteq> js ''--'') argv else argv);
          copilotArgs = (if sep then tl (dropWhile (\<lambda>a. a \<noteq> js ''--'') argv) else [])
      in parseArgs_loop (RegExp_new env) wrapperArgs 0
           \<lparr>copilot = js ''copilot'', stateFile = default_stateFile env,
            promptPatterns = DEFAULT_PROMPTS, copilotArgs = copilotArgs\<rparr>)"

definition wrapper_flags :: "jsstring list" where
  "wrapper_flags = [js ''--copilot'', js ''--state-file'', js ''--prompt-regex'']"

section \<open>Theorems\<close>

text \<open>
  C1.  For every manual override, every value of \<open>promptDetected\<close> and every hook
  state, the focus computed by \<open>render\<close> and the focus computed by the keypress
  handler both equal the override when there is one, and otherwise the driven
  process when \<open>promptDetected\<close> holds or the hook state is idle, the game
  otherwise; the status is PAUSED exactly when \<open>promptDetected\<close> holds or the hook
  state is idle.  With no override, no prompt and a busy hook the result is
  game/RUNNING, and setting \<open>promptDetected\<close> alone gives driven-process/PAUSED.
\<close>

theorem C1_focus_arbiter:
  "render_focus \<lparr>promptDetected = pd, hookState = hs, manualFocus = mf\<rparr>
     = spec_focus (override_of mf) pd hs
   \<and> keypress_focus \<lparr>promptDetected = pd, hookState = hs, manualFocus = mf\<rparr>
     = spec_focus (override_of mf) pd hs
   \<and> (render_status \<lparr>promptDetected = pd, hookState = hs, manualFocus = mf\<rparr> = ''PAUSED'')
     = (pd \<or> hs = Idle)
   \<and> (render_status \<lparr>promptDetected = pd, hookState = hs, manualFocus = mf\<rparr> = ''RUNNING'')
     = (\<not> (pd \<or> hs = Idle))
   \<and> render_focus \<lparr>promptDetected = False, hookState = Busy, manualFocus = None\<rparr> = FocusGame
   \<and> render_status \<lparr>promptDetected = False, hookState = Busy, manualFocus = None\<rparr> = ''RUNNING''
   \<and> render_focus \<lparr>promptDetected = True, hookState = Busy, manualFocus = None\<rparr> = FocusCopilot
   \<and> render_status \<lparr>promptDetected = True, hookState = Busy, manualFocus = None\<rparr> = ''PAUSED''"
proof -
  have f: "render_focus \<lparr>promptDetected = pd, hookState = hs, manualFocus = mf\<rparr>
             = spec_focus (override_of mf) pd hs"
  proof (cases mf)
    case None
    then show ?thesis by (simp add: render_focus_def waiting_def)
  next
    case (Some f)
    then show ?thesis by (cases f) (simp_all add: render_focus_def)
  qed
  have k: "keypress_focus \<lparr>promptDetected = pd, hookState = hs, manualFocus = mf\<rparr>
             = spec_focus (override_of mf) pd hs"
  proof (cases mf)
    case None
    then show ?thesis by (simp add: keypress_focus_def)
  next
    case (Some f)
    then show ?thesis by (cases f) (simp_all add: keypress_focus_def)
  qed
  have s: "(render_status \<lparr>promptDetected = pd, hookState = hs, manualFocus = mf\<rparr> = ''PAUSED'')
             = (pd \<or> hs = Idle)"
    by (simp add: render_status_def waiting_def)
  have r: "(render_status \<lparr>promptDetected = pd, hookState = hs, manualFocus = mf\<rparr> = ''RUNNING'')
             = (\<not> (pd \<or> hs = Idle))"
    by (simp add: render_status_def waiting_def)
  have c1: "render_focus \<lparr>promptDetected = False, hookState = Busy, manualFocus = None\<rparr> = FocusGame"
    by (simp add: render_focus_def waiting_def)
  have c2: "render_status \<lparr>promptDetected = False, hookState = Busy, manualFocus = None\<rparr> = ''RUNNING''"
    by (simp add: render_status_def waiting_def)
  have c3: "render_focus \<lparr>promptDetected = True, hookState = Busy, manualFocus = None\<rparr> = FocusCopilot"
    by (simp add: render_focus_def waiting_def)
  have c4: "render_status \<lparr>promptDetected = True, hookState = Busy, manualFocus = None\<rparr> = ''PAUSED''"
    by (simp add: render_status_def waiting_def)
  from f k s r c1 c2 c3 c4 show ?thesis by blast
qed

subsection \<open>Output buffer\<close>

lemma split_nl_nonempty: "split_nl s \<noteq> []"
  by (induction s) auto


lemma length_split_nl: "length (split_nl s) = Suc (newlines s)"
  using split_nl_nonempty by (induction s) (auto simp: neq_Nil_conv newlines_def)



lemma length_slice_last: "length (slice_last n xs) \<le> n"
  by (simp add: slice_last_def)

lemma trunc_eq: "(if length ls > n then slice_last n ls else ls) = slice_last n ls"
  by (simp add: slice_last_def)

text \<open>The spread call is accepted iff the cleaned chunk has at most \<open>max_args + 1\<close> newlines.\<close>

lemma append_text_Returned:
  assumes "newlines (cleaned t) \<le> Suc m"
  shows "append_text m b t = Returned (push b (cleaned t))"
proof -
  have "length (butlast (tl (split_nl (cleaned t)))) = newlines (cleaned t) - 1"
    by (simp add: length_split_nl)
  with assms have "\<not> m < length (butlast (tl (split_nl (cleaned t))))" by simp
  then show ?thesis
    unfolding append_text_def push_def cleaned_def [symmetric] Let_def trunc_eq
    by simp
qed









lemma csi_tail_newlines: "csi_tail s = Some r \<Longrightarrow> newlines s = newlines r"
proof -
  assume a: "csi_tail s = Some r"
  then obtain b t where s: "s = b # t" and b: "b = 0x5B"
    by (cases s) (auto simp: csi_tail_def split: if_splits)
  from a s obtain l where d: "dropWhile is_param t = l # r" and l: "is_letter l"
    by (auto simp: csi_tail_def split: if_splits list.splits)
  have t: "t = takeWhile is_param t @ l # r"
    using takeWhile_dropWhile_id[of is_param t] d by simp
  have "\<forall>c\<in>set (takeWhile is_param t). c \<noteq> 0x0A"
    by (auto dest!: set_takeWhileD simp: is_param_def)
  then have n: "filter (\<lambda>c. c = 0x0A) (takeWhile is_param t) = []"
    by (simp add: filter_empty_conv)
  from l have l': "l \<noteq> 0x0A" by (auto simp: is_letter_def)
  have "newlines t = newlines r"
    by (subst t) (simp add: newlines_def n l')
  with s b show ?thesis by (simp add: newlines_def)
qed

lemma newlines_strip_ansi: "newlines (strip_ansi x) = newlines x"
proof (induction x rule: strip_ansi.induct)
  case 1
  show ?case by simp
next
  case (2 c cs)
  show ?case
  proof (cases "c = 0x1B")
    case False
    with 2 show ?thesis by (simp add: newlines_def)
  next
    case True
    show ?thesis
    proof (cases "csi_tail cs")
      case None
      with True 2 show ?thesis by (simp add: newlines_def)
    next
      case (Some rest)
      with True 2 csi_tail_newlines[OF Some] show ?thesis by (simp add: newlines_def)
    qed
  qed
qed

lemma newlines_cleaned: "newlines (cleaned x) = newlines x"
proof -
  have "(\<lambda>c::jschar. c \<noteq> 0x0D \<and> c = 0x0A) = (\<lambda>c. c = 0x0A)" by auto
  then have "newlines (strip_cr s) = newlines s" for s
    by (simp add: newlines_def strip_cr_def)
  then show ?thesis by (simp add: cleaned_def newlines_strip_ansi)
qed








text \<open>
  Where the bound of 2000 lines holds: every call whose chunk has at most
  \<open>max_args + 1\<close> newlines returns with at most 2000 lines, from any buffer.
\<close>

lemma push_bounded: "length (lines b) \<le> 2000 \<Longrightarrow> length (lines (push b c)) \<le> 2000"
  by (simp add: push_def Let_def length_slice_last)

lemma feed_bounded_within_limit:
  assumes "\<forall>t\<in>set chunks. newlines t \<le> Suc m"
  shows "length (lines (feed m chunks)) \<le> 2000"
proof -
  have "length (lines b) \<le> 2000 \<Longrightarrow> \<forall>t\<in>set cs. newlines t \<le> Suc m \<Longrightarrow>
      length (lines (foldl (\<lambda>b text. buffer_of (append_text m b text)) b cs)) \<le> 2000"
    for b cs
  proof (induction cs arbitrary: b)
    case Nil
    then show ?case by simp
  next
    case (Cons t cs)
    from Cons.prems(2) have "newlines (cleaned t) \<le> Suc m" by (simp add: newlines_cleaned)
    then have "buffer_of (append_text m b t) = push b (cleaned t)"
      by (simp add: append_text_Returned)
    with Cons show ?case by (simp add: push_bounded)
  qed
  from this [of OutputBuffer_new chunks] assms show ?thesis
    by (simp add: feed_def OutputBuffer_new_def)
qed









subsection \<open>Prompt detector\<close>

lemma trim_empty_iff: "(trim l = []) = blank l"
proof -
  have "(dropWhile is_ws (rev (dropWhile is_ws l)) = []) = (dropWhile is_ws l = [])"
  proof
    assume "dropWhile is_ws (rev (dropWhile is_ws l)) = []"
    then have a: "\<forall>x\<in>set (dropWhile is_ws l). is_ws x"
      by simp
    show "dropWhile is_ws l = []"
    proof (cases "dropWhile is_ws l")
      case Nil
      then show ?thesis .
    next
      case (Cons y ys)
      then have "\<not> is_ws y" using hd_dropWhile[of is_ws l] by simp
      with a Cons show ?thesis by simp
    qed
  next
    assume "dropWhile is_ws l = []"
    then show "dropWhile is_ws (rev (dropWhile is_ws l)) = []"
      by (auto dest: set_dropWhileD)
  qed
  then show ?thesis
    by (simp add: trim_def blank_def list_all_iff)
qed

lemma detectPrompt_from_take:
  "n \<le> length ls \<Longrightarrow> detectPrompt_from ls ps n = spec_detect (take n ls) ps"
proof (induction n)
  case 0
  then show ?case by (simp add: spec_detect_def)
next
  case (Suc n)
  then have t: "take (Suc n) ls = take n ls @ [ls ! n]"
    by (simp add: take_Suc_conv_app_nth)
  show ?case using Suc
    by (simp add: t spec_detect_def trim_empty_iff Let_def list_ex_iff Bex_def)
qed

lemma detectPrompt_spec: "detectPrompt ls ps = spec_detect ls ps"
  by (simp add: detectPrompt_def detectPrompt_from_take)

lemma find_nonblank_in_blank: "find (\<lambda>l. \<not> blank l) (rev (filter blank ls)) = None"
  by (simp add: find_None_iff)

text \<open>
  C6.  For every list of lines and every list of patterns \<open>detectPrompt\<close> is the
  specified scan: from the last line backward, over white-space-only lines, to the
  first other line, which it trims and tests; it is true iff some pattern accepts
  that trimmed line, and false when every line is blank or there is none.  With the
  three default patterns, \<open>["", "  ", "copilot> "]\<close> gives true and
  \<open>["hello world"]\<close> gives false; the empty list gives false for any patterns.
\<close>

theorem C6_detectPrompt:
  "detectPrompt ls patterns = spec_detect ls patterns
   \<and> detectPrompt (filter blank ls) patterns = False
   \<and> detectPrompt [] patterns = False
   \<and> detectPrompt [js '''', js ''  '', js ''copilot> ''] DEFAULT_PROMPTS = True
   \<and> detectPrompt [js ''hello world''] DEFAULT_PROMPTS = False"
proof -
  have a: "detectPrompt ls patterns = spec_detect ls patterns"
    by (rule detectPrompt_spec)
  have b: "detectPrompt (filter blank ls) patterns = False"
    by (simp add: detectPrompt_spec spec_detect_def find_nonblank_in_blank)
  have c: "detectPrompt [] patterns = False"
    by (simp add: detectPrompt_def)
  have d: "detectPrompt [js '''', js ''  '', js ''copilot> ''] DEFAULT_PROMPTS = True"
    by code_simp
  have e: "detectPrompt [js ''hello world''] DEFAULT_PROMPTS = False"
    by code_simp
  from a b c d e show ?thesis by blast
qed

subsection \<open>Hook state reader\<close>

text \<open>
  C4 (as stated, refuted).  The claim says that a readable file whose content
  fails to parse, or parses without a recognised state, gives \<open>unknown\<close> with the
  timestamp advanced to the file's modification time.  For a file modified at 7
  and polled with the previous time 5, malformed content gives \<open>(unknown, 5)\<close>
  and content with the state \<open>"done"\<close> gives \<open>(unknown, absent)\<close>; neither is
  \<open>(unknown, 7)\<close>.
\<close>

theorem C4_content_without_state_counterexample:
  "readHookState (file_env 7 (js ''not json'')) (js ''hooks-state.json'') (Some 5) = (Unknown, Some 5)
   \<and> readHookState (file_env 7 (js ''not json'')) (js ''hooks-state.json'') (Some 5) \<noteq> (Unknown, Some 7)
   \<and> readHookState (file_env 7 other_text) (js ''hooks-state.json'') (Some 5) = (Unknown, None)
   \<and> readHookState (file_env 7 other_text) (js ''hooks-state.json'') (Some 5) \<noteq> (Unknown, Some 7)"
  by code_simp

text \<open>
  C4 (amended).  For every poll of a readable file whose modification time
  differs from \<open>previousMtime\<close>: content that fails to parse, and content that
  parses to \<open>null\<close>, give \<open>(unknown, previousMtime)\<close>; content that parses
  without a recognised state gives \<open>(unknown, absent)\<close>.  In each case the
  timestamp returned, and the one \<open>refreshHookState\<close> stores, is not the file's
  modification time, so the unchanged-mtime shortcut does not apply to the next
  poll.
\<close>

theorem C4_bad_content_not_advanced:
  assumes stat: "statSync env f = Inr m"
    and changed: "prev \<noteq> Some m"
    and read: "readFileSync env f = Inr raw"
  shows "(JSON_parse env raw = None \<longrightarrow> readHookState env f prev = (Unknown, prev))
       \<and> (JSON_parse env raw = Some JNull \<longrightarrow> readHookState env f prev = (Unknown, prev))
       \<and> (JSON_parse env raw = Some v \<and> no_known_state v
            \<longrightarrow> readHookState env f prev = (Unknown, None))
       \<and> (JSON_parse env raw = None \<or> JSON_parse env raw = Some JNull
            \<or> (JSON_parse env raw = Some v \<and> no_known_state v)
            \<longrightarrow> snd (readHookState env f prev) \<noteq> Some m
                \<and> snd (refreshHookState env f (hs, prev)) \<noteq> Some m)"
proof -
  have a: "JSON_parse env raw = None \<Longrightarrow> readHookState env f prev = (Unknown, prev)"
    using stat changed read by (auto simp: readHookState_def readHookState_try_def)
  have b: "JSON_parse env raw = Some JNull \<Longrightarrow> readHookState env f prev = (Unknown, prev)"
    using stat changed read by (auto simp: readHookState_def readHookState_try_def)
  have c: "JSON_parse env raw = Some v \<and> no_known_state v \<Longrightarrow> readHookState env f prev = (Unknown, None)"
    using stat changed read
    by (auto simp: readHookState_def readHookState_try_def no_known_state_def split: sum.splits)
  have d: "readHookState env f prev = (Unknown, prev) \<Longrightarrow> snd (readHookState env f prev) \<noteq> Some m
                \<and> snd (refreshHookState env f (hs, prev)) \<noteq> Some m"
    using changed by (simp add: refreshHookState_def)
  have e: "readHookState env f prev = (Unknown, None) \<Longrightarrow> snd (readHookState env f prev) \<noteq> Some m
                \<and> snd (refreshHookState env f (hs, prev)) \<noteq> Some m"
    by (simp add: refreshHookState_def)
  from a b c d e show ?thesis by blast
qed



theorem C4_bad_content_not_advanced_witness:
  "statSync (file_env 7 (js ''not json'')) (js ''hooks-state.json'') = Inr 7
   \<and> Some (5::real) \<noteq> Some 7
   \<and> readFileSync (file_env 7 (js ''not json'')) (js ''hooks-state.json'') = Inr (js ''not json'')
   \<and> JSON_parse (file_env 7 (js ''not json'')) (js ''not json'') = None
   \<and> readHookState (file_env 7 (js ''not json'')) (js ''hooks-state.json'') (Some 5) = (Unknown, Some 5)
   \<and> snd (refreshHookState (file_env 7 (js ''not json'')) (js ''hooks-state.json'') (Idle, Some 5)) \<noteq> Some 7
   \<and> JSON_parse (file_env 7 other_text) other_text
       = Some (JObject [(js ''state'', JString (js ''done'')), (js ''timestamp'', JNumber 3)])
   \<and> no_known_state (JObject [(js ''state'', JString (js ''done'')), (js ''timestamp'', JNumber 3)])
   \<and> readHookState (file_env 7 other_text) (js ''hooks-state.json'') (Some 5) = (Unknown, None)
   \<and> snd (refreshHookState (file_env 7 other_text) (js ''hooks-state.json'') (Idle, Some 5)) \<noteq> Some 7
   \<and> JSON_parse (file_env 7 (js ''null'')) (js ''null'') = Some JNull
   \<and> readHookState (file_env 7 (js ''null'')) (js ''hooks-state.json'') (Some 5) = (Unknown, Some 5)"
proof -
  have c: "Some (5::real) \<noteq> Some 7" by simp
  have s3: "statSync (file_env 7 (js ''null'')) (js ''hooks-state.json'') = Inr 7"
    by (simp add: file_env_def)
  have r3: "readFileSync (file_env 7 (js ''null'')) (js ''hooks-state.json'') = Inr (js ''null'')"
    by (simp add: file_env_def)
  have p3: "JSON_parse (file_env 7 (js ''null'')) (js ''null'') = Some JNull"
    by code_simp
  note t3 = C4_bad_content_not_advanced [OF s3 c r3, of JNull Idle]
  note a3 = t3 [THEN conjunct2, THEN conjunct1, THEN mp, OF p3]
  have s1: "statSync (file_env 7 (js ''not json'')) (js ''hooks-state.json'') = Inr 7"
    by (simp add: file_env_def)
  have r1: "readFileSync (file_env 7 (js ''not json'')) (js ''hooks-state.json'') = Inr (js ''not json'')"
    by (simp add: file_env_def)
  have p1: "JSON_parse (file_env 7 (js ''not json'')) (js ''not json'') = None"
    by code_simp
  have s2: "statSync (file_env 7 other_text) (js ''hooks-state.json'') = Inr 7"
    by (simp add: file_env_def)
  have r2: "readFileSync (file_env 7 other_text) (js ''hooks-state.json'') = Inr other_text"
    by (simp add: file_env_def)
  have p2: "JSON_parse (file_env 7 other_text) other_text
       = Some (JObject [(js ''state'', JString (js ''done'')), (js ''timestamp'', JNumber 3)])"
    by code_simp
  have n2: "no_known_state (JObject [(js ''state'', JString (js ''done'')), (js ''timestamp'', JNumber 3)])"
    by code_simp
  note t1 = C4_bad_content_not_advanced [OF s1 c r1, of JNull Idle]
  note t2 = C4_bad_content_not_advanced [OF s2 c r2,
      of "JObject [(js ''state'', JString (js ''done'')), (js ''timestamp'', JNumber 3)]" Idle]
  from t1 p1 have a1: "readHookState (file_env 7 (js ''not json'')) (js ''hooks-state.json'') (Some 5)
       = (Unknown, Some 5)
     \<and> snd (refreshHookState (file_env 7 (js ''not json'')) (js ''hooks-state.json'') (Idle, Some 5))
       \<noteq> Some 7"
    by blast
  from t2 p2 n2 have a2: "readHookState (file_env 7 other_text) (js ''hooks-state.json'') (Some 5)
       = (Unknown, None)
     \<and> snd (refreshHookState (file_env 7 other_text) (js ''hooks-state.json'') (Idle, Some 5))
       \<noteq> Some 7"
    by blast
  from c s1 r1 p1 a1 p2 n2 a2 p3 a3 show ?thesis by blast
qed

text \<open>
  C5.  A poll whose \<open>previousMtime\<close> is the file's modification time returns
  \<open>(unknown, previousMtime)\<close> whatever \<open>readFileSync\<close> and \<open>JSON.parse\<close>
  would give, so without the content; a poll of a missing file returns
  \<open>(unknown, absent)\<close>.  For a file holding \<open>{"state":"idle","timestamp":1}\<close>
  the first poll, with no previous time, returns idle with the file's time, a
  second poll with that time returns unknown, and once the file is rewritten
  (a new modification time, a new state) the next poll returns the new state.
\<close>

theorem C5_poll:
  "(statSync env f = Inr m
      \<longrightarrow> readHookState (env\<lparr>readFileSync := r, JSON_parse := p\<rparr>) f (Some m) = (Unknown, Some m))
   \<and> (statSync env f = Inl (ErrnoException (js ''ENOENT''))
      \<longrightarrow> readHookState env f prev = (Unknown, None))
   \<and> (statSync env f = Inr m \<and> readFileSync env f = Inr idle_text
       \<and> JSON_parse env idle_text
           = Some (JObject [(js ''state'', JString (js ''idle'')), (js ''timestamp'', JNumber 1)])
      \<longrightarrow> readHookState env f None = (Idle, Some m)
          \<and> readHookState env f (Some m) = (Unknown, Some m))
   \<and> (statSync env' f = Inr m' \<and> m' \<noteq> m \<and> readFileSync env' f = Inr raw'
       \<and> JSON_parse env' raw' = Some v \<and> get_state v = Inr (Some (JString (js ''busy'')))
      \<longrightarrow> readHookState env' f (Some m) = (Busy, Some m'))
   \<and> (statSync env' f = Inr m' \<and> m' \<noteq> m \<and> readFileSync env' f = Inr raw'
       \<and> JSON_parse env' raw' = Some v \<and> get_state v = Inr (Some (JString (js ''idle'')))
      \<longrightarrow> readHookState env' f (Some m) = (Idle, Some m'))"
proof -
  have a: "statSync env f = Inr m
      \<Longrightarrow> readHookState (env\<lparr>readFileSync := r, JSON_parse := p\<rparr>) f (Some m) = (Unknown, Some m)"
    by (simp add: readHookState_def readHookState_try_def)
  have b: "statSync env f = Inl (ErrnoException (js ''ENOENT''))
      \<Longrightarrow> readHookState env f prev = (Unknown, None)"
    by (simp add: readHookState_def readHookState_try_def)
  have c: "statSync env f = Inr m \<and> readFileSync env f = Inr idle_text
       \<and> JSON_parse env idle_text
           = Some (JObject [(js ''state'', JString (js ''idle'')), (js ''timestamp'', JNumber 1)])
      \<Longrightarrow> readHookState env f None = (Idle, Some m)
          \<and> readHookState env f (Some m) = (Unknown, Some m)"
    by (simp add: readHookState_def readHookState_try_def js_def)
  have d: "statSync env' f = Inr m' \<and> m' \<noteq> m \<and> readFileSync env' f = Inr raw'
       \<and> JSON_parse env' raw' = Some v \<and> get_state v = Inr (Some (JString (js ''busy'')))
      \<Longrightarrow> readHookState env' f (Some m) = (Busy, Some m')"
    by (simp add: readHookState_def readHookState_try_def)
  have e: "statSync env' f = Inr m' \<and> m' \<noteq> m \<and> readFileSync env' f = Inr raw'
       \<and> JSON_parse env' raw' = Some v \<and> get_state v = Inr (Some (JString (js ''idle'')))
      \<Longrightarrow> readHookState env' f (Some m) = (Idle, Some m')"
    by (simp add: readHookState_def readHookState_try_def js_def)
  from a b c d e show ?thesis by blast
qed

theorem C5_poll_witness:
  "statSync (file_env 7 idle_text) (js ''hooks-state.json'') = Inr 7
   \<and> readHookState ((file_env 7 idle_text)\<lparr>readFileSync := (\<lambda>path. Inl (ErrnoException (js ''EACCES''))),
          JSON_parse := (\<lambda>raw. None)\<rparr>) (js ''hooks-state.json'') (Some 7) = (Unknown, Some 7)
   \<and> statSync missing_env (js ''hooks-state.json'') = Inl (ErrnoException (js ''ENOENT''))
   \<and> readHookState missing_env (js ''hooks-state.json'') (Some 7) = (Unknown, None)
   \<and> readFileSync (file_env 7 idle_text) (js ''hooks-state.json'') = Inr idle_text
   \<and> readHookState (file_env 7 idle_text) (js ''hooks-state.json'') None = (Idle, Some 7)
   \<and> readHookState (file_env 7 idle_text) (js ''hooks-state.json'') (Some 7) = (Unknown, Some 7)
   \<and> statSync (file_env 9 busy_text) (js ''hooks-state.json'') = Inr 9
   \<and> (9::real) \<noteq> 7
   \<and> readFileSync (file_env 9 busy_text) (js ''hooks-state.json'') = Inr busy_text
   \<and> readHookState (file_env 9 busy_text) (js ''hooks-state.json'') (Some 7) = (Busy, Some 9)
   \<and> readHookState (file_env 9 idle_text) (js ''hooks-state.json'') (Some 7) = (Idle, Some 9)"
proof -
  have s3: "statSync (file_env 9 idle_text) (js ''hooks-state.json'') = Inr 9"
    by (simp add: file_env_def)
  have r3: "readFileSync (file_env 9 idle_text) (js ''hooks-state.json'') = Inr idle_text"
    by (simp add: file_env_def)
  have p3: "JSON_parse (file_env 9 idle_text) idle_text
       = Some (JObject [(js ''state'', JString (js ''idle'')), (js ''timestamp'', JNumber 1)])"
    by code_simp
  have g3: "get_state (JObject [(js ''state'', JString (js ''idle'')), (js ''timestamp'', JNumber 1)])
       = Inr (Some (JString (js ''idle'')))"
    by simp
  have ne3: "(9::real) \<noteq> 7" by simp
  note t3 = C5_poll [where env' = "file_env 9 idle_text" and f = "js ''hooks-state.json''"
      and m = 7 and m' = 9 and raw' = idle_text
      and v = "JObject [(js ''state'', JString (js ''idle'')), (js ''timestamp'', JNumber 1)]"]
  from t3 s3 ne3 r3 p3 g3
  have i3: "readHookState (file_env 9 idle_text) (js ''hooks-state.json'') (Some 7) = (Idle, Some 9)"
    by blast
  have s1: "statSync (file_env 7 idle_text) (js ''hooks-state.json'') = Inr 7"
    by (simp add: file_env_def)
  have r1: "readFileSync (file_env 7 idle_text) (js ''hooks-state.json'') = Inr idle_text"
    by (simp add: file_env_def)
  have p1: "JSON_parse (file_env 7 idle_text) idle_text
       = Some (JObject [(js ''state'', JString (js ''idle'')), (js ''timestamp'', JNumber 1)])"
    by code_simp
  have s0: "statSync missing_env (js ''hooks-state.json'') = Inl (ErrnoException (js ''ENOENT''))"
    by (simp add: missing_env_def)
  have s2: "statSync (file_env 9 busy_text) (js ''hooks-state.json'') = Inr 9"
    by (simp add: file_env_def)
  have ne: "(9::real) \<noteq> 7" by simp
  have r2: "readFileSync (file_env 9 busy_text) (js ''hooks-state.json'') = Inr busy_text"
    by (simp add: file_env_def)
  have p2: "JSON_parse (file_env 9 busy_text) busy_text
       = Some (JObject [(js ''state'', JString (js ''busy'')), (js ''timestamp'', JNumber 2)])"
    by code_simp
  have g2: "get_state (JObject [(js ''state'', JString (js ''busy'')), (js ''timestamp'', JNumber 2)])
       = Inr (Some (JString (js ''busy'')))"
    by simp
  note t1 = C5_poll [where env = "file_env 7 idle_text" and f = "js ''hooks-state.json''"
      and m = 7 and r = "\<lambda>path. Inl (ErrnoException (js ''EACCES''))" and p = "\<lambda>raw. None"
      and prev = "Some 7" and env' = "file_env 9 busy_text" and m' = 9 and raw' = busy_text
      and v = "JObject [(js ''state'', JString (js ''busy'')), (js ''timestamp'', JNumber 2)]"]
  note t0 = C5_poll [where env = missing_env and f = "js ''hooks-state.json''"
      and m = 7 and r = "\<lambda>path. Inl (ErrnoException (js ''EACCES''))" and p = "\<lambda>raw. None"
      and prev = "Some 7" and env' = "file_env 9 busy_text" and m' = 9 and raw' = busy_text
      and v = "JObject [(js ''state'', JString (js ''busy'')), (js ''timestamp'', JNumber 2)]"]
  from t1 s1 have a: "readHookState ((file_env 7 idle_text)\<lparr>readFileSync := (\<lambda>path. Inl (ErrnoException (js ''EACCES''))),
          JSON_parse := (\<lambda>raw. None)\<rparr>) (js ''hooks-state.json'') (Some 7) = (Unknown, Some 7)"
    by blast
  from t0 s0 have b: "readHookState missing_env (js ''hooks-state.json'') (Some 7) = (Unknown, None)"
    by blast
  from t1 s1 r1 p1 have c: "readHookState (file_env 7 idle_text) (js ''hooks-state.json'') None = (Idle, Some 7)
      \<and> readHookState (file_env 7 idle_text) (js ''hooks-state.json'') (Some 7) = (Unknown, Some 7)"
    by blast
  from t1 s2 ne r2 p2 g2 have d: "readHookState (file_env 9 busy_text) (js ''hooks-state.json'') (Some 7) = (Busy, Some 9)"
    by blast
  from s1 a s0 b r1 c s2 ne r2 d i3 show ?thesis by blast
qed

subsection \<open>Input router\<close>

lemma named_keys_lookup:
  "(case name key of None \<Rightarrow> None | Some n \<Rightarrow> map_of named_keys n) =
     (if name key = Some (js ''enter'') then Some [0x0D]
      else if name key = Some (js ''backspace'') then Some [0x7F]
      else if name key = Some (js ''up'') then Some [0x1B, 0x5B, 0x41]
      else if name key = Some (js ''down'') then Some [0x1B, 0x5B, 0x42]
      else if name key = Some (js ''left'') then Some [0x1B, 0x5B, 0x44]
      else if name key = Some (js ''right'') then Some [0x1B, 0x5B, 0x43]
      else None)"
  by (cases "name key") (simp_all add: named_keys_def js_def)

lemma sendToCopilot_forwarded:
  "sendToCopilot p key ch = (case forwarded key ch of Some bytes \<Rightarrow> p @ [bytes] | None \<Rightarrow> p)"
  unfolding forwarded_def named_keys_lookup
  by (cases "sequence key"; cases ch) (simp_all add: sendToCopilot_def nonempty_def)

lemma forwarded_None:
  "(forwarded key ch = None)
     = ((case name key of None \<Rightarrow> None | Some n \<Rightarrow> map_of named_keys n) = None
        \<and> \<not> truthy (sequence key) \<and> \<not> truthy ch)"
  by (cases "sequence key"; cases ch)
     (auto simp: forwarded_def nonempty_def split: option.splits)

text \<open>
  C7 (as stated, refuted).  The claim says that every keystroke routed to the driven
  process issues exactly one write, never zero.  A key event that is none of the
  six named keys, with an empty \<open>sequence\<close> and no character, passes both guards
  \<open>if (seq)\<close> and \<open>if (ch)\<close> and writes nothing; so does one with an empty
  character and no sequence.
\<close>

theorem C7_no_write_counterexample:
  "keypress_focus \<lparr>promptDetected = True, hookState = Unknown, manualFocus = None\<rparr> = FocusCopilot
   \<and> keypress_pty \<lparr>promptDetected = True, hookState = Unknown, manualFocus = None\<rparr>
        [] \<lparr>name = Some (js ''f13''), sequence = Some []\<rparr> None = []
   \<and> sendToCopilot [] \<lparr>name = Some (js ''f13''), sequence = Some []\<rparr> None = []
   \<and> sendToCopilot [] \<lparr>name = None, sequence = None\<rparr> (Some []) = []
   \<and> length (sendToCopilot [] \<lparr>name = Some (js ''f13''), sequence = Some []\<rparr> None) \<noteq> 1"
  by code_simp

text \<open>
  C7 (amended).  A keystroke routed while the focus is the driven process issues at
  most one write: enter gives \<open>"\r"\<close>, backspace \<open>"\x7f"\<close>, the four arrow keys
  their ANSI sequences, any other key with a non-empty raw sequence that sequence,
  and otherwise a non-empty character that character.  Exactly one write is issued
  iff the key is one of the six named keys or carries a non-empty sequence or a
  non-empty character; a key that carries none of these is dropped with no write.
\<close>

theorem C7_sendToCopilot_writes:
  "sendToCopilot p key ch
     = (case forwarded key ch of Some bytes \<Rightarrow> p @ [bytes] | None \<Rightarrow> p)
   \<and> length (sendToCopilot p key ch) \<le> length p + 1
   \<and> (length (sendToCopilot p key ch) = length p + 1)
     = ((case name key of None \<Rightarrow> None | Some n \<Rightarrow> map_of named_keys n) \<noteq> None
        \<or> truthy (sequence key) \<or> truthy ch)
   \<and> (sendToCopilot p key ch = p)
     = ((case name key of None \<Rightarrow> None | Some n \<Rightarrow> map_of named_keys n) = None
        \<and> \<not> truthy (sequence key) \<and> \<not> truthy ch)
   \<and> keypress_pty \<lparr>promptDetected = pd, hookState = hs, manualFocus = Some FocusCopilot\<rparr> p key ch
     = sendToCopilot p key ch
   \<and> keypress_pty \<lparr>promptDetected = True, hookState = hs, manualFocus = None\<rparr> p key ch
     = sendToCopilot p key ch
   \<and> keypress_pty \<lparr>promptDetected = pd, hookState = Idle, manualFocus = None\<rparr> p key ch
     = sendToCopilot p key ch
   \<and> sendToCopilot p \<lparr>name = Some (js ''enter''), sequence = s\<rparr> ch = p @ [[0x0D]]
   \<and> sendToCopilot p \<lparr>name = Some (js ''backspace''), sequence = s\<rparr> ch = p @ [[0x7F]]
   \<and> sendToCopilot p \<lparr>name = Some (js ''up''), sequence = s\<rparr> ch = p @ [0x1B # js ''[A'']
   \<and> sendToCopilot p \<lparr>name = Some (js ''down''), sequence = s\<rparr> ch = p @ [0x1B # js ''[B'']
   \<and> sendToCopilot p \<lparr>name = Some (js ''left''), sequence = s\<rparr> ch = p @ [0x1B # js ''[D'']
   \<and> sendToCopilot p \<lparr>name = Some (js ''right''), sequence = s\<rparr> ch = p @ [0x1B # js ''[C'']"
proof -
  have a: "sendToCopilot p key ch
             = (case forwarded key ch of Some bytes \<Rightarrow> p @ [bytes] | None \<Rightarrow> p)"
    by (rule sendToCopilot_forwarded)
  have b: "length (sendToCopilot p key ch) \<le> length p + 1"
    by (simp add: a split: option.splits)
  have c: "(length (sendToCopilot p key ch) = length p + 1)
     = ((case name key of None \<Rightarrow> None | Some n \<Rightarrow> map_of named_keys n) \<noteq> None
        \<or> truthy (sequence key) \<or> truthy ch)"
    using forwarded_None[of key ch] by (cases "forwarded key ch") (simp_all add: a)
  have d: "(sendToCopilot p key ch = p)
     = ((case name key of None \<Rightarrow> None | Some n \<Rightarrow> map_of named_keys n) = None
        \<and> \<not> truthy (sequence key) \<and> \<not> truthy ch)"
    using forwarded_None[of key ch] by (cases "forwarded key ch") (simp_all add: a)
  have e: "keypress_pty \<lparr>promptDetected = pd, hookState = hs, manualFocus = Some FocusCopilot\<rparr> p key ch
     = sendToCopilot p key ch"
    by (simp add: keypress_pty_def keypress_focus_def)
  have f: "keypress_pty \<lparr>promptDetected = True, hookState = hs, manualFocus = None\<rparr> p key ch
     = sendToCopilot p key ch"
    by (simp add: keypress_pty_def keypress_focus_def)
  have g: "keypress_pty \<lparr>promptDetected = pd, hookState = Idle, manualFocus = None\<rparr> p key ch
     = sendToCopilot p key ch"
    by (simp add: keypress_pty_def keypress_focus_def)
  have k1: "sendToCopilot p \<lparr>name = Some (js ''enter''), sequence = s\<rparr> ch = p @ [[0x0D]]"
    by (simp add: sendToCopilot_def)
  have k2: "sendToCopilot p \<lparr>name = Some (js ''backspace''), sequence = s\<rparr> ch = p @ [[0x7F]]"
    by (simp add: sendToCopilot_def js_def)
  have k3: "sendToCopilot p \<lparr>name = Some (js ''up''), sequence = s\<rparr> ch = p @ [0x1B # js ''[A'']"
    by (simp add: sendToCopilot_def js_def)
  have k4: "sendToCopilot p \<lparr>name = Some (js ''down''), sequence = s\<rparr> ch = p @ [0x1B # js ''[B'']"
    by (simp add: sendToCopilot_def js_def)
  have k5: "sendToCopilot p \<lparr>name = Some (js ''left''), sequence = s\<rparr> ch = p @ [0x1B # js ''[D'']"
    by (simp add: sendToCopilot_def js_def)
  have k6: "sendToCopilot p \<lparr>name = Some (js ''right''), sequence = s\<rparr> ch = p @ [0x1B # js ''[C'']"
    by (simp add: sendToCopilot_def js_def)
  from a b c d e f g k1 k2 k3 k4 k5 k6 show ?thesis by blast
qed

theorem C7_sendToCopilot_writes_witness:
  "(case name \<lparr>name = Some (js ''a''), sequence = Some (js ''a'')\<rparr> of
      None \<Rightarrow> None | Some n \<Rightarrow> map_of named_keys n) = None
   \<and> truthy (sequence \<lparr>name = Some (js ''a''), sequence = Some (js ''a'')\<rparr>)
   \<and> sendToCopilot [js ''ls'', [0x0D]] \<lparr>name = Some (js ''a''), sequence = Some (js ''a'')\<rparr>
        (Some (js ''a''))
     = [js ''ls'', [0x0D], js ''a'']
   \<and> length (sendToCopilot [js ''ls'', [0x0D]] \<lparr>name = Some (js ''a''), sequence = Some (js ''a'')\<rparr>
        (Some (js ''a'')))
     = length [js ''ls'', [0x0D :: jschar]] + 1
   \<and> sendToCopilot [js ''ls'', [0x0D]] \<lparr>name = Some (js ''up''), sequence = Some (0x1B # js ''OA'')\<rparr> None
     = [js ''ls'', [0x0D], 0x1B # js ''[A'']"
proof -
  let ?k = "\<lparr>name = Some (js ''a''), sequence = Some (js ''a'')\<rparr>"
  let ?p = "[js ''ls'', [0x0D :: jschar]]"
  have n: "(case name ?k of None \<Rightarrow> None | Some n \<Rightarrow> map_of named_keys n) = None"
    by (simp add: named_keys_def js_def)
  have s: "truthy (sequence ?k)" by (simp add: js_def)
  have f: "forwarded ?k (Some (js ''a'')) = Some (js ''a'')"
    using n by (simp add: forwarded_def nonempty_def js_def)
  note t = C7_sendToCopilot_writes [where p = ?p and key = ?k and ch = "Some (js ''a'')"
      and s = "Some (0x1B # js ''OA'')"]
  note t' = C7_sendToCopilot_writes [where p = ?p and ch = None
      and s = "Some (0x1B # js ''OA'')"]
  from t [THEN conjunct1] f
  have a: "sendToCopilot ?p ?k (Some (js ''a'')) = [js ''ls'', [0x0D], js ''a'']"
    by simp
  from t [THEN conjunct2, THEN conjunct2, THEN conjunct1] s
  have b: "length (sendToCopilot ?p ?k (Some (js ''a''))) = length ?p + 1"
    by blast
  from t' [THEN conjunct2, THEN conjunct2, THEN conjunct2, THEN conjunct2, THEN conjunct2,
      THEN conjunct2, THEN conjunct2, THEN conjunct2, THEN conjunct2, THEN conjunct1]
  have c: "sendToCopilot ?p \<lparr>name = Some (js ''up''), sequence = Some (0x1B # js ''OA'')\<rparr> None
      = [js ''ls'', [0x0D], 0x1B # js ''[A'']"
    by simp
  from n s a b c show ?thesis by blast
qed

subsection \<open>Game\<close>


lemma placeTarget_loop_Some:
  "placeTarget_loop g rs = Some (g', rs') \<Longrightarrow>
     g' = g\<lparr>target_x := target_x g', target_y := target_y g'\<rparr>
     \<and> (target_x g' \<noteq> player_x g \<or> target_y g' \<noteq> player_y g)"
  by (induction g rs rule: placeTarget_loop.induct) (auto simp: Let_def split: if_splits)

lemma placeTarget_loop_total:
  "(placeTarget_loop g rs \<noteq> None) = fresh_draw (width g) (height g) (player_x g) (player_y g) rs"
  by (induction g rs rule: placeTarget_loop.induct) (auto simp: Let_def)

lemma placeTarget_Some:
  assumes "placeTarget g rs = Some (g', rs')" "1 < width g" "1 < height g"
  shows "width g' = width g" "height g' = height g" "player_x g' = player_x g"
    "player_y g' = player_y g" "score g' = score g"
    "target_x g' \<noteq> player_x g' \<or> target_y g' \<noteq> player_y g'"
proof -
  from assms have l: "placeTarget_loop g rs = Some (g', rs')" by (simp add: placeTarget_def)
  note f = placeTarget_loop_Some[OF l]
  from f have e: "g' = g\<lparr>target_x := target_x g', target_y := target_y g'\<rparr>" by blast
  show "width g' = width g" by (subst e) simp
  show "height g' = height g" by (subst e) simp
  show px: "player_x g' = player_x g" by (subst e) simp
  show py: "player_y g' = player_y g" by (subst e) simp
  show "score g' = score g" by (subst e) simp
  from f px py show "target_x g' \<noteq> player_x g' \<or> target_y g' \<noteq> player_y g'" by simp
qed

lemma placeTarget_total:
  "1 < width g \<Longrightarrow> 1 < height g \<Longrightarrow>
   (placeTarget g rs \<noteq> None) = fresh_draw (width g) (height g) (player_x g) (player_y g) rs"
  using placeTarget_loop_total[of g rs] by (simp add: placeTarget_def)


lemma move_capture:
  assumes "move g dx dy rs = Some (g', rs')" "1 < width g" "1 < height g"
    and "landing_x g dx = target_x g \<and> landing_y g dy = target_y g"
  shows "width g' = width g \<and> height g' = height g
       \<and> player_x g' = landing_x g dx \<and> player_y g' = landing_y g dy
       \<and> score g' = score g + 1
       \<and> (target_x g' \<noteq> player_x g' \<or> target_y g' \<noteq> player_y g')"
proof -
  let ?g2 = "g\<lparr>player_x := landing_x g dx, player_y := landing_y g dy, score := score g + 1\<rparr>"
  from assms(1,4) have p: "placeTarget ?g2 rs = Some (g', rs')"
    by (simp add: move_def Let_def landing_x_def landing_y_def)
  from placeTarget_Some[OF p] assms(2,3) show ?thesis by simp
qed

lemma move_no_capture:
  assumes "move g dx dy rs = Some (g', rs')"
    and "\<not> (landing_x g dx = target_x g \<and> landing_y g dy = target_y g)"
  shows "g' = g\<lparr>player_x := landing_x g dx, player_y := landing_y g dy\<rparr> \<and> rs' = rs"
  using assms by (auto simp: move_def Let_def landing_x_def landing_y_def)

lemma move_total:
  "1 < width g \<Longrightarrow> 1 < height g \<Longrightarrow>
   (move g dx dy rs \<noteq> None)
     = (\<not> (landing_x g dx = target_x g \<and> landing_y g dy = target_y g)
        \<or> fresh_draw (width g) (height g) (landing_x g dx) (landing_y g dy) rs)"
proof (cases "landing_x g dx = target_x g \<and> landing_y g dy = target_y g")
  case True
  assume wh: "1 < width g" "1 < height g"
  let ?g2 = "g\<lparr>player_x := landing_x g dx, player_y := landing_y g dy, score := score g + 1\<rparr>"
  from True have "move g dx dy rs = placeTarget ?g2 rs"
    by (simp add: move_def Let_def landing_x_def landing_y_def)
  with placeTarget_total[of ?g2 rs] wh True show ?thesis by simp
next
  case False
  then have "move g dx dy rs
      = Some (g\<lparr>player_x := landing_x g dx, player_y := landing_y g dy\<rparr>, rs)"
    by (auto simp: move_def Let_def landing_x_def landing_y_def)
  with False show ?thesis by simp
qed

lemma move_Some:
  assumes "move g dx dy rs = Some (g', rs')" "1 < width g" "1 < height g"
  shows "width g' = width g \<and> height g' = height g
       \<and> player_x g' = landing_x g dx \<and> player_y g' = landing_y g dy
       \<and> (if landing_x g dx = target_x g \<and> landing_y g dy = target_y g
           then score g' = score g + 1
           else score g' = score g \<and> target_x g' = target_x g \<and> target_y g' = target_y g \<and> rs' = rs)
       \<and> (target_x g' \<noteq> player_x g' \<or> target_y g' \<noteq> player_y g')"
proof (cases "landing_x g dx = target_x g \<and> landing_y g dy = target_y g")
  case True
  from move_capture[OF assms True] True show ?thesis by auto
next
  case False
  from move_no_capture[OF assms(1) False] False show ?thesis by auto
qed

lemma reset_Some:
  assumes "reset g rs = Some (g', rs')" "1 < width g" "1 < height g"
  shows "width g' = width g \<and> height g' = height g
       \<and> player_x g' = width g div 2 \<and> player_y g' = height g div 2 \<and> score g' = 0
       \<and> (target_x g' \<noteq> player_x g' \<or> target_y g' \<noteq> player_y g')"
proof -
  let ?g2 = "g\<lparr>score := 0, player_x := width g div 2, player_y := height g div 2\<rparr>"
  from assms(1) have p: "placeTarget ?g2 rs = Some (g', rs')" by (simp add: reset_def Let_def)
  from placeTarget_Some[OF p] assms(2,3) show ?thesis by simp
qed

lemma resize_Some:
  assumes "resize g w h rs = Some (g', rs')"
  shows "width g' = max 5 w \<and> height g' = max 5 h
       \<and> player_x g' = min (player_x g) (max 5 w - 1) \<and> player_y g' = min (player_y g) (max 5 h - 1)
       \<and> score g' = score g
       \<and> (target_x g' \<noteq> player_x g' \<or> target_y g' \<noteq> player_y g')"
proof -
  let ?g4 = "g\<lparr>width := max 5 w, height := max 5 h,
      player_x := min (player_x g) (max 5 w - 1), player_y := min (player_y g) (max 5 h - 1)\<rparr>"
  from assms(1) have p: "placeTarget ?g4 rs = Some (g', rs')" by (simp add: resize_def Let_def)
  from placeTarget_Some[OF p] show ?thesis by simp
qed

lemma run_right_in_range:
  "run (replicate k (Move 1 0)) g rs = Some (g', rs') \<Longrightarrow> 1 < width g \<Longrightarrow> 1 < height g \<Longrightarrow>
   0 \<le> player_x g \<Longrightarrow> player_x g \<le> width g - 1 \<Longrightarrow>
   width g' = width g \<and> player_x g' = min (width g - 1) (player_x g + int k)"
proof (induction k arbitrary: g rs)
  case 0
  then show ?case by simp
next
  case (Suc k)
  from Suc.prems(1) obtain g1 rs1 where m: "move g 1 0 rs = Some (g1, rs1)"
    and r: "run (replicate k (Move 1 0)) g1 rs1 = Some (g', rs')"
    by (auto split: option.splits)
  from move_Some[OF m Suc.prems(2,3)] have w: "width g1 = width g" and h: "height g1 = height g"
    and x: "player_x g1 = landing_x g 1" by auto
  from x Suc.prems(4,5) have x1: "player_x g1 = min (width g - 1) (player_x g + 1)"
    by (simp add: landing_x_def)
  from Suc.IH[OF r] w h x1 Suc.prems show ?case by auto
qed

lemma run_right_width:
  assumes "run (replicate (nat (width g)) (Move 1 0)) g rs = Some (g', rs')"
    and "1 < width g" "1 < height g"
  shows "player_x g' = width g - 1"
proof -
  from assms(2) obtain k where k: "nat (width g) = Suc k" by (cases "nat (width g)") auto
  with assms(1) obtain g1 rs1 where m: "move g 1 0 rs = Some (g1, rs1)"
    and r: "run (replicate k (Move 1 0)) g1 rs1 = Some (g', rs')"
    by (auto split: option.splits)
  from move_Some[OF m assms(2,3)] have w: "width g1 = width g" and h: "height g1 = height g"
    and x: "player_x g1 = landing_x g 1" by auto
  from x assms(2) have x0: "0 \<le> player_x g1" and x1: "player_x g1 \<le> width g1 - 1"
    by (auto simp: landing_x_def w)
  from run_right_in_range[OF r] w h x0 x1 assms(2,3)
  have "player_x g' = min (width g - 1) (player_x g1 + int k)" by simp
  with k x0 x1 w show ?thesis by auto
qed

lemma run_right_total:
  "1 < width g \<Longrightarrow> 1 < height g \<Longrightarrow> 0 \<le> player_x g \<Longrightarrow>
   run (replicate n (Move 1 0)) g (replicate (2 * n) 0 @ rs) \<noteq> None"
proof (induction n arbitrary: g rs)
  case 0
  then show ?case by simp
next
  case (Suc n)
  have lx: "1 \<le> landing_x g 1" using Suc.prems by (simp add: landing_x_def)
  have fr: "fresh_draw (width g) (height g) (landing_x g 1) (landing_y g 0) (replicate (2 * Suc n) 0 @ rs)"
    using lx by simp
  with move_total[OF Suc.prems(1,2), of 1 0 "replicate (2 * Suc n) 0 @ rs"]
  obtain g1 rs1 where m: "move g 1 0 (replicate (2 * Suc n) 0 @ rs) = Some (g1, rs1)" by auto
  from move_Some[OF m Suc.prems(1,2)] have w: "width g1 = width g" and h: "height g1 = height g"
    and x: "player_x g1 = landing_x g 1" by auto
  have "\<exists>rs2. rs1 = replicate (2 * n) 0 @ rs2"
  proof (cases "landing_x g 1 = target_x g \<and> landing_y g 0 = target_y g")
    case True
    let ?g2 = "g\<lparr>player_x := landing_x g 1, player_y := landing_y g 0, score := score g + 1\<rparr>"
    from True have "move g 1 0 (replicate (2 * Suc n) 0 @ rs)
        = placeTarget ?g2 (0 # 0 # replicate (2 * n) 0 @ rs)"
      by (simp add: move_def Let_def landing_x_def landing_y_def)
    also have "\<dots> = placeTarget_loop ?g2 (0 # 0 # replicate (2 * n) 0 @ rs)"
      using Suc.prems by (simp add: placeTarget_def)
    also have "\<dots> = Some (?g2\<lparr>target_x := 0, target_y := 0\<rparr>, replicate (2 * n) 0 @ rs)"
      using lx by simp
    finally have "rs1 = replicate (2 * n) 0 @ rs" using m by simp
    then show ?thesis by blast
  next
    case False
    from move_no_capture[OF m False] have "rs1 = replicate (2 * n) 0 @ (0 # 0 # rs)"
      by (simp add: replicate_app_Cons_same)
    then show ?thesis by blast
  qed
  then obtain rs2 where rs1: "rs1 = replicate (2 * n) 0 @ rs2" by blast
  have "run (replicate n (Move 1 0)) g1 (replicate (2 * n) 0 @ rs2) \<noteq> None"
    using Suc.IH[of g1 rs2] w h x lx Suc.prems by simp
  with m rs1 show ?case by simp
qed

lemma placeTarget_score: "placeTarget g rs = Some (g', rs') \<Longrightarrow> score g' = score g"
proof (cases "width g \<le> 1 \<or> height g \<le> 1")
  case True
  assume "placeTarget g rs = Some (g', rs')"
  with True show ?thesis by (auto simp: placeTarget_def)
next
  case False
  assume "placeTarget g rs = Some (g', rs')"
  with False have l: "placeTarget_loop g rs = Some (g', rs')" by (simp add: placeTarget_def)
  from placeTarget_loop_Some[OF l]
  have e: "g' = g\<lparr>target_x := target_x g', target_y := target_y g'\<rparr>" by blast
  show ?thesis by (subst e) simp
qed

lemma move_score:
  assumes "move g dx dy rs = Some (g', rs')"
  shows "score g' = score g \<or> score g' = score g + 1"
proof (cases "landing_x g dx = target_x g \<and> landing_y g dy = target_y g")
  case True
  let ?g2 = "g\<lparr>player_x := landing_x g dx, player_y := landing_y g dy, score := score g + 1\<rparr>"
  from assms True have p: "placeTarget ?g2 rs = Some (g', rs')"
    by (simp add: move_def Let_def landing_x_def landing_y_def)
  from placeTarget_score[OF p] show ?thesis by simp
next
  case False
  from move_no_capture[OF assms False] show ?thesis by simp
qed

lemma resize_score: "resize g w h rs = Some (g', rs') \<Longrightarrow> score g' = score g"
  by (auto simp: resize_def Let_def dest: placeTarget_score)

lemma reset_score: "reset g rs = Some (g', rs') \<Longrightarrow> score g' = 0"
  by (auto simp: reset_def Let_def dest: placeTarget_score)

lemma exec_score:
  "exec op g rs = Some (g', rs') \<Longrightarrow> op \<noteq> Reset \<Longrightarrow> score g \<le> score g'"
proof (cases op)
  case (Move dx dy)
  assume "exec op g rs = Some (g', rs')"
  with Move have "move g dx dy rs = Some (g', rs')" by simp
  from move_score[OF this] show ?thesis by auto
next
  case (Resize w h)
  assume "exec op g rs = Some (g', rs')"
  with Resize have "resize g w h rs = Some (g', rs')" by simp
  from resize_score[OF this] show ?thesis by simp
next
  case Reset
  assume "op \<noteq> Reset"
  with Reset show ?thesis by simp
qed

lemma run_score:
  "run ops g rs = Some (g', rs') \<Longrightarrow> Reset \<notin> set ops \<Longrightarrow> score g \<le> score g'"
proof (induction ops arbitrary: g rs)
  case Nil
  then show ?case by simp
next
  case (Cons op ops)
  from Cons.prems(1) obtain g1 rs1 where e: "exec op g rs = Some (g1, rs1)"
    and r: "run ops g1 rs1 = Some (g', rs')"
    by (auto split: option.splits)
  from Cons.prems(2) have ne: "op \<noteq> Reset" and rest: "Reset \<notin> set ops" by auto
  from exec_score[OF e ne] Cons.IH[OF r rest] show ?case by simp
qed

lemma reset_total:
  "1 < width g \<Longrightarrow> 1 < height g \<Longrightarrow>
   (reset g rs \<noteq> None) = fresh_draw (width g) (height g) (width g div 2) (height g div 2) rs"
  using placeTarget_total[of "g\<lparr>score := 0, player_x := width g div 2, player_y := height g div 2\<rparr>" rs]
  by (simp add: reset_def Let_def)

lemma resize_total:
  "(resize g w h rs \<noteq> None)
     = fresh_draw (max 5 w) (max 5 h) (min (player_x g) (max 5 w - 1))
         (min (player_y g) (max 5 h - 1)) rs"
  using placeTarget_total[of "g\<lparr>width := max 5 w, height := max 5 h,
      player_x := min (player_x g) (max 5 w - 1), player_y := min (player_y g) (max 5 h - 1)\<rparr>" rs]
  by (simp add: resize_def Let_def)

lemma fresh_draw_exists:
  assumes "2 \<le> w"
  shows "fresh_draw w h px py (0 # 0 # 1 / 2 # 1 / 2 # rs)"
proof -
  have "\<lfloor>1 / 2 * real_of_int w\<rfloor> \<noteq> 0" using assms by (simp add: floor_eq_iff)
  then have ne: "\<lfloor>1 / 2 * real_of_int w\<rfloor> \<noteq> \<lfloor>0 * real_of_int w\<rfloor>" by simp
  show ?thesis
  proof (cases "\<lfloor>0 * real_of_int w\<rfloor> = px")
    case True
    with ne have "\<lfloor>1 / 2 * real_of_int w\<rfloor> \<noteq> px" by simp
    then show ?thesis unfolding fresh_draw.simps by blast
  next
    case False
    then show ?thesis unfolding fresh_draw.simps by blast
  qed
qed

text \<open>
  C8.  On a grid of width and height at least 5: a move puts the player one step in
  the commanded direction, clamped to the grid, so \<open>width\<close> moves to the right end
  at \<open>x = width - 1\<close>; a move that lands on the target adds exactly 1 to the score
  and puts the target on another cell than the player's, any other move leaves the
  score and the target as they were; after every move, reset and resize the target
  is not on the player's cell.  Each call returns as soon as \<open>Math.random\<close> has
  given one cell that is not the player's (a move that captures nothing draws
  nothing), such a draw exists for every player cell, and \<open>n\<close> moves to the right
  return on a tape of \<open>2n\<close> zeros.
\<close>

theorem C8_game_moves:
  assumes "5 \<le> width g" and "5 \<le> height g"
  shows
    "(move g dx dy rs = Some (g', rs') \<longrightarrow>
        player_x g' = max 0 (min (width g - 1) (player_x g + dx))
      \<and> player_y g' = max 0 (min (height g - 1) (player_y g + dy))
      \<and> width g' = width g \<and> height g' = height g
      \<and> (if player_x g' = target_x g \<and> player_y g' = target_y g
         then score g' = score g + 1
         else score g' = score g \<and> target_x g' = target_x g \<and> target_y g' = target_y g
              \<and> rs' = rs)
      \<and> (target_x g', target_y g') \<noteq> (player_x g', player_y g'))
     \<and> ((move g dx dy rs \<noteq> None)
          = ((max 0 (min (width g - 1) (player_x g + dx)),
              max 0 (min (height g - 1) (player_y g + dy))) \<noteq> (target_x g, target_y g)
             \<or> fresh_draw (width g) (height g)
                  (max 0 (min (width g - 1) (player_x g + dx)))
                  (max 0 (min (height g - 1) (player_y g + dy))) rs))
     \<and> (run (replicate (nat (width g)) (Move 1 0)) g rs = Some (g', rs')
          \<longrightarrow> player_x g' = width g - 1)
     \<and> (0 \<le> player_x g
          \<longrightarrow> run (replicate n (Move 1 0)) g (replicate (2 * n) 0 @ rs) \<noteq> None)
     \<and> (reset g rs = Some (g', rs')
          \<longrightarrow> (target_x g', target_y g') \<noteq> (player_x g', player_y g'))
     \<and> ((reset g rs \<noteq> None)
          = fresh_draw (width g) (height g) (width g div 2) (height g div 2) rs)
     \<and> (resize g w h rs = Some (g', rs')
          \<longrightarrow> 5 \<le> width g' \<and> 5 \<le> height g'
              \<and> (target_x g', target_y g') \<noteq> (player_x g', player_y g'))
     \<and> ((resize g w h rs \<noteq> None)
          = fresh_draw (max 5 w) (max 5 h) (min (player_x g) (max 5 w - 1))
              (min (player_y g) (max 5 h - 1)) rs)
     \<and> fresh_draw (width g) (height g) px py (0 # 0 # 1 / 2 # 1 / 2 # rs)"
proof -
  from assms have wh: "1 < width g" "1 < height g" by simp_all
  have a: "move g dx dy rs = Some (g', rs') \<Longrightarrow>
        player_x g' = max 0 (min (width g - 1) (player_x g + dx))
      \<and> player_y g' = max 0 (min (height g - 1) (player_y g + dy))
      \<and> width g' = width g \<and> height g' = height g
      \<and> (if player_x g' = target_x g \<and> player_y g' = target_y g
         then score g' = score g + 1
         else score g' = score g \<and> target_x g' = target_x g \<and> target_y g' = target_y g
              \<and> rs' = rs)
      \<and> (target_x g', target_y g') \<noteq> (player_x g', player_y g')"
    using move_Some[OF _ wh, of dx dy rs g' rs']
    by (auto simp: landing_x_def landing_y_def split: if_splits)
  have b: "(move g dx dy rs \<noteq> None)
          = ((max 0 (min (width g - 1) (player_x g + dx)),
              max 0 (min (height g - 1) (player_y g + dy))) \<noteq> (target_x g, target_y g)
             \<or> fresh_draw (width g) (height g)
                  (max 0 (min (width g - 1) (player_x g + dx)))
                  (max 0 (min (height g - 1) (player_y g + dy))) rs)"
    using move_total[OF wh, of dx dy rs] by (simp add: landing_x_def landing_y_def)
  have c: "run (replicate (nat (width g)) (Move 1 0)) g rs = Some (g', rs')
          \<Longrightarrow> player_x g' = width g - 1"
    by (rule run_right_width [OF _ wh])
  have d: "0 \<le> player_x g
          \<Longrightarrow> run (replicate n (Move 1 0)) g (replicate (2 * n) 0 @ rs) \<noteq> None"
    by (rule run_right_total [OF wh])
  have e: "reset g rs = Some (g', rs')
          \<Longrightarrow> (target_x g', target_y g') \<noteq> (player_x g', player_y g')"
    using reset_Some[OF _ wh, of rs g' rs'] by auto
  have f: "(reset g rs \<noteq> None)
          = fresh_draw (width g) (height g) (width g div 2) (height g div 2) rs"
    by (rule reset_total [OF wh])
  have h: "resize g w h rs = Some (g', rs')
          \<Longrightarrow> 5 \<le> width g' \<and> 5 \<le> height g'
              \<and> (target_x g', target_y g') \<noteq> (player_x g', player_y g')"
    using resize_Some[of g w h rs g' rs'] by auto
  have i: "(resize g w h rs \<noteq> None)
          = fresh_draw (max 5 w) (max 5 h) (min (player_x g) (max 5 w - 1))
              (min (player_y g) (max 5 h - 1)) rs"
    by (rule resize_total)
  have j: "fresh_draw (width g) (height g) px py (0 # 0 # 1 / 2 # 1 / 2 # rs)"
    using assms by (intro fresh_draw_exists) simp
  from a b c d e f h i j show ?thesis by blast
qed

theorem C8_game_moves_witness:
  "5 \<le> width \<lparr>width = 10, height = 6, player_x = 5, player_y = 3, target_x = 6, target_y = 3, score = 0\<rparr>
   \<and> 5 \<le> height \<lparr>width = 10, height = 6, player_x = 5, player_y = 3, target_x = 6, target_y = 3, score = 0\<rparr>
   \<and> move \<lparr>width = 10, height = 6, player_x = 5, player_y = 3, target_x = 6, target_y = 3, score = 0\<rparr>
        1 0 [6 / 10, 1 / 2, 0, 0, 1 / 4]
      = Some (\<lparr>width = 10, height = 6, player_x = 6, player_y = 3, target_x = 0, target_y = 0, score = 1\<rparr>,
              [1 / 4])
   \<and> run (replicate (nat 10) (Move 1 0))
        \<lparr>width = 10, height = 6, player_x = 5, player_y = 3, target_x = 6, target_y = 3, score = 0\<rparr>
        [6 / 10, 1 / 2, 0, 0, 1 / 4]
      = Some (\<lparr>width = 10, height = 6, player_x = 9, player_y = 3, target_x = 0, target_y = 0, score = 1\<rparr>,
              [1 / 4])
   \<and> run (replicate 3 (Move 1 0))
        \<lparr>width = 10, height = 6, player_x = 5, player_y = 3, target_x = 6, target_y = 3, score = 0\<rparr>
        (replicate (2 * 3) 0 @ []) \<noteq> None
   \<and> reset \<lparr>width = 10, height = 6, player_x = 5, player_y = 3, target_x = 6, target_y = 3, score = 0\<rparr>
        [1 / 2, 1 / 2, 0, 0]
      = Some (\<lparr>width = 10, height = 6, player_x = 5, player_y = 3, target_x = 0, target_y = 0, score = 0\<rparr>, [])
   \<and> resize \<lparr>width = 10, height = 6, player_x = 5, player_y = 3, target_x = 6, target_y = 3, score = 0\<rparr>
        5 3 [9 / 10, 7 / 10, 0, 0]
      = Some (\<lparr>width = 5, height = 5, player_x = 4, player_y = 3, target_x = 0, target_y = 0, score = 0\<rparr>, [])
   \<and> player_x \<lparr>width = 10, height = 6, player_x = 6, player_y = 3, target_x = 0, target_y = 0, score = 1\<rparr>
      = max 0 (min (10 - 1) (5 + 1))
   \<and> score \<lparr>width = 10, height = 6, player_x = 6, player_y = 3, target_x = 0, target_y = 0, score = 1\<rparr>
      = 0 + 1
   \<and> player_x \<lparr>width = 10, height = 6, player_x = 9, player_y = 3, target_x = 0, target_y = 0, score = 1\<rparr>
      = 10 - 1
   \<and> (target_x \<lparr>width = 10, height = 6, player_x = 5, player_y = 3, target_x = 0, target_y = 0, score = 0\<rparr>,
       target_y \<lparr>width = 10, height = 6, player_x = 5, player_y = 3, target_x = 0, target_y = 0, score = 0\<rparr>)
      \<noteq> (5, 3)
   \<and> (target_x \<lparr>width = 5, height = 5, player_x = 4, player_y = 3, target_x = 0, target_y = 0, score = 0\<rparr>,
       target_y \<lparr>width = 5, height = 5, player_x = 4, player_y = 3, target_x = 0, target_y = 0, score = 0\<rparr>)
      \<noteq> (4, 3)"
proof -
  let ?g = "\<lparr>width = 10, height = 6, player_x = 5, player_y = 3, target_x = 6, target_y = 3, score = 0\<rparr>"
  let ?g1 = "\<lparr>width = 10, height = 6, player_x = 6, player_y = 3, target_x = 0, target_y = 0, score = 1\<rparr>"
  let ?g2 = "\<lparr>width = 10, height = 6, player_x = 9, player_y = 3, target_x = 0, target_y = 0, score = 1\<rparr>"
  have w: "5 \<le> width ?g" by simp
  have h: "5 \<le> height ?g" by simp
  have m: "move ?g 1 0 [6 / 10, 1 / 2, 0, 0, 1 / 4] = Some (?g1, [1 / 4])"
    by (simp add: move_def placeTarget_def)
  have r: "run (replicate (nat 10) (Move 1 0)) ?g [6 / 10, 1 / 2, 0, 0, 1 / 4] = Some (?g2, [1 / 4])"
    by code_simp
  have rr: "run (replicate (nat (width ?g)) (Move 1 0)) ?g [6 / 10, 1 / 2, 0, 0, 1 / 4] = Some (?g2, [1 / 4])"
    using r by simp
  have rs: "reset ?g [1 / 2, 1 / 2, 0, 0]
      = Some (\<lparr>width = 10, height = 6, player_x = 5, player_y = 3, target_x = 0, target_y = 0, score = 0\<rparr>, [])"
    by (simp add: reset_def placeTarget_def)
  have rz: "resize ?g 5 3 [9 / 10, 7 / 10, 0, 0]
      = Some (\<lparr>width = 5, height = 5, player_x = 4, player_y = 3, target_x = 0, target_y = 0, score = 0\<rparr>, [])"
    by (simp add: resize_def placeTarget_def)
  have p: "0 \<le> player_x ?g" by simp
  note t1 = C8_game_moves [OF w h, where dx = 1 and dy = 0 and rs = "[6 / 10, 1 / 2, 0, 0, 1 / 4]"
      and g' = ?g1 and rs' = "[1 / 4]"]
  note t2 = C8_game_moves [OF w h, where rs = "[6 / 10, 1 / 2, 0, 0, 1 / 4]"
      and g' = ?g2 and rs' = "[1 / 4]"]
  note t3 = C8_game_moves [OF w h, where n = 3 and rs = "[]"]
  note t4 = C8_game_moves [OF w h, where rs = "[1 / 2, 1 / 2, 0, 0]" and rs' = "[]"
      and g' = "\<lparr>width = 10, height = 6, player_x = 5, player_y = 3, target_x = 0, target_y = 0, score = 0\<rparr>"]
  note t5 = C8_game_moves [OF w h, where rs = "[9 / 10, 7 / 10, 0, 0]" and rs' = "[]"
      and w = 5 and h = 3
      and g' = "\<lparr>width = 5, height = 5, player_x = 4, player_y = 3, target_x = 0, target_y = 0, score = 0\<rparr>"]
  note a = t1 [THEN conjunct1, THEN mp, OF m]
  note b = t2 [THEN conjunct2, THEN conjunct2, THEN conjunct1, THEN mp, OF rr]
  note c = t3 [THEN conjunct2, THEN conjunct2, THEN conjunct2, THEN conjunct1, THEN mp, OF p]
  from a have a1: "player_x ?g1 = max 0 (min (10 - 1) (5 + 1))" by simp
  from a have a2: "score ?g1 = 0 + 1" by simp
  from b have b1: "player_x ?g2 = 10 - 1" by simp
  note d = t4 [THEN conjunct2, THEN conjunct2, THEN conjunct2, THEN conjunct2, THEN conjunct1,
      THEN mp, OF rs]
  note e = t5 [THEN conjunct2, THEN conjunct2, THEN conjunct2, THEN conjunct2, THEN conjunct2,
      THEN conjunct2, THEN conjunct1, THEN mp, OF rz]
  from d have d1: "(target_x \<lparr>width = 10, height = 6, player_x = 5, player_y = 3, target_x = 0, target_y = 0, score = 0\<rparr>,
       target_y \<lparr>width = 10, height = 6, player_x = 5, player_y = 3, target_x = 0, target_y = 0, score = 0\<rparr>)
      \<noteq> (5, 3)"
    by simp
  from e have e1: "(target_x \<lparr>width = 5, height = 5, player_x = 4, player_y = 3, target_x = 0, target_y = 0, score = 0\<rparr>,
       target_y \<lparr>width = 5, height = 5, player_x = 4, player_y = 3, target_x = 0, target_y = 0, score = 0\<rparr>)
      \<noteq> (4, 3)"
    by simp
  from w h m r c rs rz a1 a2 b1 d1 e1 show ?thesis by blast
qed

text \<open>
  C9 (as stated, refuted).  The claim says that the score never decreases over
  moves, resizes and resets.  On a new game a move up captures the target under
  the player and makes the score 1; the reset that follows makes it 0.
\<close>

theorem C9_reset_counterexample:
  "move Game_new 0 (- 1) [1 / 2, 1 / 2, 1 / 2, 1 / 2, 0, 0]
     = Some (\<lparr>width = 10, height = 6, player_x = 0, player_y = 0, target_x = 5, target_y = 3, score = 1\<rparr>,
             [1 / 2, 1 / 2, 0, 0])
   \<and> reset \<lparr>width = 10, height = 6, player_x = 0, player_y = 0, target_x = 5, target_y = 3, score = 1\<rparr>
        [1 / 2, 1 / 2, 0, 0]
     = Some (\<lparr>width = 10, height = 6, player_x = 5, player_y = 3, target_x = 0, target_y = 0, score = 0\<rparr>,
             [])
   \<and> run [Move 0 (- 1), Reset] Game_new [1 / 2, 1 / 2, 1 / 2, 1 / 2, 0, 0]
     = Some (\<lparr>width = 10, height = 6, player_x = 5, player_y = 3, target_x = 0, target_y = 0, score = 0\<rparr>,
             [])
   \<and> \<not> score \<lparr>width = 10, height = 6, player_x = 0, player_y = 0, target_x = 5, target_y = 3, score = 1\<rparr>
       \<le> score \<lparr>width = 10, height = 6, player_x = 5, player_y = 3, target_x = 0, target_y = 0, score = 0\<rparr>"
  by (simp add: Game_new_def move_def reset_def placeTarget_def)

text \<open>
  C9 (amended).  Over every sequence of moves and resizes the score does not
  decrease: a move leaves it or adds 1, a resize leaves it.  A reset sets the score
  to 0, whatever it was.
\<close>

theorem C9_score_monotone_without_reset:
  "(Reset \<notin> set ops \<and> run ops g rs = Some (g', rs') \<longrightarrow> score g \<le> score g')
   \<and> (move g dx dy rs = Some (g', rs') \<longrightarrow> score g' = score g \<or> score g' = score g + 1)
   \<and> (resize g w h rs = Some (g', rs') \<longrightarrow> score g' = score g)
   \<and> (reset g rs = Some (g', rs') \<longrightarrow> score g' = 0)"
proof -
  have a: "Reset \<notin> set ops \<and> run ops g rs = Some (g', rs') \<Longrightarrow> score g \<le> score g'"
    using run_score[of ops g rs g' rs'] by simp
  have b: "move g dx dy rs = Some (g', rs') \<Longrightarrow> score g' = score g \<or> score g' = score g + 1"
    by (rule move_score)
  have c: "resize g w h rs = Some (g', rs') \<Longrightarrow> score g' = score g"
    by (rule resize_score)
  have d: "reset g rs = Some (g', rs') \<Longrightarrow> score g' = 0"
    by (rule reset_score)
  from a b c d show ?thesis by blast
qed

theorem C9_score_monotone_without_reset_witness:
  "Reset \<notin> set [Move 0 (- 1), Resize 7 5, Move 1 0]
   \<and> run [Move 0 (- 1), Resize 7 5, Move 1 0] Game_new [1 / 2, 1 / 2, 1 / 7, 0, 1 / 2, 1 / 2]
     = Some (\<lparr>width = 7, height = 5, player_x = 1, player_y = 0, target_x = 3, target_y = 2, score = 2\<rparr>,
             [])
   \<and> score Game_new
       \<le> score \<lparr>width = 7, height = 5, player_x = 1, player_y = 0, target_x = 3, target_y = 2, score = 2\<rparr>
   \<and> reset \<lparr>width = 7, height = 5, player_x = 1, player_y = 0, target_x = 3, target_y = 2, score = 2\<rparr>
        [0, 0]
     = Some (\<lparr>width = 7, height = 5, player_x = 3, player_y = 2, target_x = 0, target_y = 0, score = 0\<rparr>,
             [])
   \<and> score \<lparr>width = 7, height = 5, player_x = 3, player_y = 2, target_x = 0, target_y = 0, score = 0\<rparr>
     = 0
   \<and> move Game_new 0 (- 1) [1 / 2, 1 / 2]
     = Some (\<lparr>width = 10, height = 6, player_x = 0, player_y = 0, target_x = 5, target_y = 3, score = 1\<rparr>,
             [])
   \<and> score \<lparr>width = 10, height = 6, player_x = 0, player_y = 0, target_x = 5, target_y = 3, score = 1\<rparr>
     = score Game_new + 1
   \<and> resize Game_new 7 5 [1 / 7, 0]
     = Some (\<lparr>width = 7, height = 5, player_x = 0, player_y = 0, target_x = 1, target_y = 0, score = 0\<rparr>,
             [])
   \<and> score \<lparr>width = 7, height = 5, player_x = 0, player_y = 0, target_x = 1, target_y = 0, score = 0\<rparr>
     = score Game_new"
proof -
  let ?g1 = "\<lparr>width = 7, height = 5, player_x = 1, player_y = 0, target_x = 3, target_y = 2, score = 2\<rparr>"
  let ?g2 = "\<lparr>width = 7, height = 5, player_x = 3, player_y = 2, target_x = 0, target_y = 0, score = 0\<rparr>"
  have n: "Reset \<notin> set [Move 0 (- 1), Resize 7 5, Move 1 0]" by simp
  have r: "run [Move 0 (- 1), Resize 7 5, Move 1 0] Game_new [1 / 2, 1 / 2, 1 / 7, 0, 1 / 2, 1 / 2]
      = Some (?g1, [])"
    by (simp add: Game_new_def move_def resize_def placeTarget_def)
  have s: "reset ?g1 [0, 0] = Some (?g2, [])"
    by (simp add: reset_def placeTarget_def)
  note t1 = C9_score_monotone_without_reset [where ops = "[Move 0 (- 1), Resize 7 5, Move 1 0]"
      and g = Game_new and rs = "[1 / 2, 1 / 2, 1 / 7, 0, 1 / 2, 1 / 2]" and g' = ?g1 and rs' = "[]"]
  note t2 = C9_score_monotone_without_reset [where g = ?g1 and rs = "[0, 0]" and g' = ?g2
      and rs' = "[]"]
  note a = t1 [THEN conjunct1, THEN mp, OF conjI, OF n r]
  note b = t2 [THEN conjunct2, THEN conjunct2, THEN conjunct2, THEN mp, OF s]
  let ?g3 = "\<lparr>width = 10, height = 6, player_x = 0, player_y = 0, target_x = 5, target_y = 3, score = 1\<rparr>"
  let ?g4 = "\<lparr>width = 7, height = 5, player_x = 0, player_y = 0, target_x = 1, target_y = 0, score = 0\<rparr>"
  have m: "move Game_new 0 (- 1) [1 / 2, 1 / 2] = Some (?g3, [])"
    by (simp add: Game_new_def move_def placeTarget_def)
  have z: "resize Game_new 7 5 [1 / 7, 0] = Some (?g4, [])"
    by (simp add: Game_new_def resize_def placeTarget_def)
  note t3 = C9_score_monotone_without_reset [where g = Game_new and dx = 0 and dy = "- 1"
      and rs = "[1 / 2, 1 / 2]" and g' = ?g3 and rs' = "[]"]
  note t4 = C9_score_monotone_without_reset [where g = Game_new and w = 7 and h = 5
      and rs = "[1 / 7, 0]" and g' = ?g4 and rs' = "[]"]
  from t3 [THEN conjunct2, THEN conjunct1, THEN mp, OF m]
  have c: "score ?g3 = score Game_new + 1" by (simp add: Game_new_def)
  note d = t4 [THEN conjunct2, THEN conjunct2, THEN conjunct1, THEN mp, OF z]
  from n r a s b m c z d show ?thesis by blast
qed

subsection \<open>Command line\<close>

lemma wrapper_flag_facts:
  assumes "flag \<in> set wrapper_flags"
  shows "flag \<noteq> js ''--help''" "flag \<noteq> js ''--''" "flag \<noteq> []"
  using assms by (auto simp: wrapper_flags_def js_def)

lemma parseArgs_loop_skip_flag:
  assumes "flag \<in> set wrapper_flags" "i < length ws" "ws ! i = flag"
    and "Suc i = length ws \<or> ws ! Suc i = []"
  shows "parseArgs_loop mk ws i acc = parseArgs_loop mk ws (Suc i) acc"
proof -
  have t: "\<not> truthy (if i + 1 < length ws then Some (ws ! (i + 1)) else None)"
    using assms(4) by auto
  show ?thesis
    using assms(2,3) t wrapper_flag_facts(1)[OF assms(1)]
    by (subst parseArgs_loop.simps) (simp add: Let_def)
qed

lemma parseArgs_loop_end: "length ws \<le> i \<Longrightarrow> parseArgs_loop mk ws i acc = Inr acc"
  by (subst parseArgs_loop.simps) simp

lemma parseArgs_loop_step: "i < length ws \<Longrightarrow> parseArgs_loop mk ws i acc =
      (if ws ! i = js ''--copilot'' \<and> truthy (if i + 1 < length ws then Some (ws ! (i + 1)) else None)
            then parseArgs_loop mk ws (i + 2) (acc\<lparr>copilot := ws ! (i + 1)\<rparr>)
            else if ws ! i = js ''--state-file'' \<and> truthy (if i + 1 < length ws then Some (ws ! (i + 1)) else None)
            then parseArgs_loop mk ws (i + 2) (acc\<lparr>stateFile := ws ! (i + 1)\<rparr>)
            else if ws ! i = js ''--prompt-regex'' \<and> truthy (if i + 1 < length ws then Some (ws ! (i + 1)) else None)
            then (case mk (ws ! (i + 1)) of
                    None \<Rightarrow> Inl (RegExpError (ws ! (i + 1)))
                  | Some re \<Rightarrow>
                      parseArgs_loop mk ws (i + 2)
                        (acc\<lparr>promptPatterns := promptPatterns acc @ [re]\<rparr>))
            else if ws ! i = js ''--help'' then Inl HelpExit
            else parseArgs_loop mk ws (i + 1) acc)"
  apply (rule trans)
   apply (rule parseArgs_loop.simps)
  apply (simp only: Let_def if_True)
  done

lemma if_chain_cong:
  "(c1 \<Longrightarrow> a1 = b1) \<Longrightarrow> (\<not> c1 \<Longrightarrow> c2 \<Longrightarrow> a2 = b2) \<Longrightarrow>
   (\<not> c1 \<Longrightarrow> \<not> c2 \<Longrightarrow> c3 \<Longrightarrow> a3 = b3) \<Longrightarrow>
   (\<not> c1 \<Longrightarrow> \<not> c2 \<Longrightarrow> \<not> c3 \<Longrightarrow> \<not> c4 \<Longrightarrow> a5 = b5) \<Longrightarrow>
   (if c1 then a1 else if c2 then a2 else if c3 then a3 else if c4 then x else a5)
     = (if c1 then b1 else if c2 then b2 else if c3 then b3 else if c4 then x else b5)"
  by simp

lemma parseArgs_loop_shift: "parseArgs_loop mk (a # ws) (Suc i) acc = parseArgs_loop mk ws i acc"
proof (induction mk ws i acc rule: parseArgs_loop.induct)
  case (1 mk ws i acc)
  show ?case
  proof (cases "i < length ws")
    case False
    then show ?thesis by (simp add: parseArgs_loop_end)
  next
    case True
    let ?nxt = "if i + 1 < length ws then Some (ws ! (i + 1)) else None"
    have T: "Suc i < length (a # ws)" using True by simp
    note L = parseArgs_loop_step [OF T, of mk acc, unfolded add_Suc nth_Cons_Suc length_Cons Suc_less_eq]
    note R = parseArgs_loop_step [OF True, of mk acc]
    note ih = "1.IH" [OF True refl refl]
    show ?thesis
      unfolding L R
    proof (rule if_chain_cong)
      assume c: "ws ! i = js ''--copilot'' \<and> truthy ?nxt"
      show "parseArgs_loop mk (a # ws) (Suc (i + 2)) (acc\<lparr>copilot := ws ! (i + 1)\<rparr>)
          = parseArgs_loop mk ws (i + 2) (acc\<lparr>copilot := ws ! (i + 1)\<rparr>)"
        by (rule ih(1) [OF c])
    next
      assume c: "\<not> (ws ! i = js ''--copilot'' \<and> truthy ?nxt)"
        and s: "ws ! i = js ''--state-file'' \<and> truthy ?nxt"
      show "parseArgs_loop mk (a # ws) (Suc (i + 2)) (acc\<lparr>stateFile := ws ! (i + 1)\<rparr>)
          = parseArgs_loop mk ws (i + 2) (acc\<lparr>stateFile := ws ! (i + 1)\<rparr>)"
        by (rule ih(2) [OF c s])
    next
      assume c: "\<not> (ws ! i = js ''--copilot'' \<and> truthy ?nxt)"
        and s: "\<not> (ws ! i = js ''--state-file'' \<and> truthy ?nxt)"
        and p: "ws ! i = js ''--prompt-regex'' \<and> truthy ?nxt"
      show "(case mk (ws ! (i + 1)) of
               None \<Rightarrow> Inl (RegExpError (ws ! (i + 1)))
             | Some re \<Rightarrow> parseArgs_loop mk (a # ws) (Suc (i + 2))
                  (acc\<lparr>promptPatterns := promptPatterns acc @ [re]\<rparr>))
          = (case mk (ws ! (i + 1)) of
               None \<Rightarrow> Inl (RegExpError (ws ! (i + 1)))
             | Some re \<Rightarrow> parseArgs_loop mk ws (i + 2)
                  (acc\<lparr>promptPatterns := promptPatterns acc @ [re]\<rparr>))"
      proof (cases "mk (ws ! (i + 1))")
        case None
        then show ?thesis by (simp only: option.case)
      next
        case (Some re)
        then show ?thesis by (simp only: option.case ih(3) [OF c s p Some])
      qed
    next
      assume c: "\<not> (ws ! i = js ''--copilot'' \<and> truthy ?nxt)"
        and s: "\<not> (ws ! i = js ''--state-file'' \<and> truthy ?nxt)"
        and p: "\<not> (ws ! i = js ''--prompt-regex'' \<and> truthy ?nxt)"
        and h: "ws ! i \<noteq> js ''--help''"
      show "parseArgs_loop mk (a # ws) (Suc (i + 1)) acc = parseArgs_loop mk ws (i + 1) acc"
        by (rule ih(4) [OF c s p h])
    qed
  qed
qed

text \<open>
  C10.  When the loop of \<open>parseArgs\<close> comes to \<open>--copilot\<close>, \<open>--state-file\<close> or
  \<open>--prompt-regex\<close> as the last wrapper token, or with an empty string after it,
  it goes on to the next token with the configuration unchanged and without an
  error: the defaults, or the values set by earlier flags, stay.  So a flag at the
  end of the wrapper arguments returns the configuration accumulated before it, a
  lone flag (alone, or before the \<open>--\<close> separator) returns the defaults, and a
  leading flag followed by an empty string gives what the arguments without the
  flag give.
\<close>

theorem C10_flag_without_value:
  assumes "flag \<in> set wrapper_flags"
  shows
    "(i < length ws \<and> ws ! i = flag \<and> (Suc i = length ws \<or> ws ! Suc i = [])
        \<longrightarrow> parseArgs_loop mk ws i acc = parseArgs_loop mk ws (Suc i) acc)
     \<and> parseArgs_loop mk (ws @ [flag]) (length ws) acc = Inr acc
     \<and> parseArgs env [flag]
         = Inr \<lparr>copilot = js ''copilot'', stateFile = default_stateFile env,
                promptPatterns = DEFAULT_PROMPTS, copilotArgs = []\<rparr>
     \<and> parseArgs env (flag # js ''--'' # rest)
         = Inr \<lparr>copilot = js ''copilot'', stateFile = default_stateFile env,
                promptPatterns = DEFAULT_PROMPTS, copilotArgs = rest\<rparr>
     \<and> parseArgs env (flag # [] # rest) = parseArgs env ([] # rest)"
proof -
  note ff = wrapper_flag_facts [OF assms]
  have a: "i < length ws \<and> ws ! i = flag \<and> (Suc i = length ws \<or> ws ! Suc i = [])
        \<Longrightarrow> parseArgs_loop mk ws i acc = parseArgs_loop mk ws (Suc i) acc"
    using parseArgs_loop_skip_flag [OF assms, of i ws mk acc] by blast
  have last: "\<And>ws acc mk. parseArgs_loop mk (ws @ [flag]) (length ws) acc = Inr acc"
  proof -
    fix ws :: "jsstring list" and acc :: Args and mk
    have "parseArgs_loop mk (ws @ [flag]) (length ws) acc
        = parseArgs_loop mk (ws @ [flag]) (Suc (length ws)) acc"
      by (rule parseArgs_loop_skip_flag [OF assms]) simp_all
    also have "\<dots> = Inr acc" by (rule parseArgs_loop_end) simp
    finally show "parseArgs_loop mk (ws @ [flag]) (length ws) acc = Inr acc" .
  qed
  have b: "parseArgs_loop mk (ws @ [flag]) (length ws) acc = Inr acc" by (rule last)
  have c: "parseArgs env [flag]
         = Inr \<lparr>copilot = js ''copilot'', stateFile = default_stateFile env,
                promptPatterns = DEFAULT_PROMPTS, copilotArgs = []\<rparr>"
    using last [of _ "[]"] ff(2) by (simp add: parseArgs_def)
  have d: "parseArgs env (flag # js ''--'' # rest)
         = Inr \<lparr>copilot = js ''copilot'', stateFile = default_stateFile env,
                promptPatterns = DEFAULT_PROMPTS, copilotArgs = rest\<rparr>"
    using last [of _ "[]"] ff(2) by (simp add: parseArgs_def)
  have ne: "[] \<noteq> js ''--''" by (simp add: js_def)
  have e: "parseArgs env (flag # [] # rest) = parseArgs env ([] # rest)"
  proof -
    have skip: "\<And>W acc. parseArgs_loop (RegExp_new env) (flag # [] # W) 0 acc
        = parseArgs_loop (RegExp_new env) ([] # W) 0 acc"
    proof -
      fix W :: "jsstring list" and acc :: Args
      have "parseArgs_loop (RegExp_new env) (flag # [] # W) 0 acc
          = parseArgs_loop (RegExp_new env) (flag # [] # W) (Suc 0) acc"
        by (rule parseArgs_loop_skip_flag [OF assms]) simp_all
      also have "\<dots> = parseArgs_loop (RegExp_new env) ([] # W) 0 acc"
        by (rule parseArgs_loop_shift)
      finally show "parseArgs_loop (RegExp_new env) (flag # [] # W) 0 acc
        = parseArgs_loop (RegExp_new env) ([] # W) 0 acc" .
    qed
    show ?thesis
      using ff(2) ne
      by (cases "js ''--'' \<in> set rest") (simp_all add: parseArgs_def Let_def skip)
  qed
  from a b c d e show ?thesis by blast
qed

theorem C10_flag_without_value_witness:
  "js ''--copilot'' \<in> set wrapper_flags
   \<and> parseArgs_loop (\<lambda>s. None) [js ''--state-file'', js ''/tmp/s'', js ''--copilot''] 2
        \<lparr>copilot = js ''copilot'', stateFile = js ''/tmp/s'',
         promptPatterns = DEFAULT_PROMPTS, copilotArgs = []\<rparr>
     = Inr \<lparr>copilot = js ''copilot'', stateFile = js ''/tmp/s'',
            promptPatterns = DEFAULT_PROMPTS, copilotArgs = []\<rparr>
   \<and> parseArgs \<lparr>COPILOT_HOOKS_STATE = None, home_state_path = js ''/home/u/.copilot/hooks-state.json'',
                 RegExp_new = (\<lambda>s. None)\<rparr>
        [js ''--state-file'', js ''/tmp/s'', js ''--copilot'']
     = Inr \<lparr>copilot = js ''copilot'', stateFile = js ''/tmp/s'',
            promptPatterns = DEFAULT_PROMPTS, copilotArgs = []\<rparr>
   \<and> parseArgs \<lparr>COPILOT_HOOKS_STATE = None, home_state_path = js ''/home/u/.copilot/hooks-state.json'',
                 RegExp_new = (\<lambda>s. None)\<rparr>
        [js ''--copilot'', js ''--'', js ''--version'']
     = Inr \<lparr>copilot = js ''copilot'', stateFile = js ''/home/u/.copilot/hooks-state.json'',
            promptPatterns = DEFAULT_PROMPTS, copilotArgs = [js ''--version'']\<rparr>
   \<and> parseArgs \<lparr>COPILOT_HOOKS_STATE = None, home_state_path = js ''/home/u/.copilot/hooks-state.json'',
                 RegExp_new = (\<lambda>s. None)\<rparr>
        [js ''--copilot'', []]
     = Inr \<lparr>copilot = js ''copilot'', stateFile = js ''/home/u/.copilot/hooks-state.json'',
            promptPatterns = DEFAULT_PROMPTS, copilotArgs = []\<rparr>"
proof -
  let ?env = "\<lparr>COPILOT_HOOKS_STATE = None, home_state_path = js ''/home/u/.copilot/hooks-state.json'',
                 RegExp_new = (\<lambda>s. None)\<rparr>"
  let ?acc = "\<lparr>copilot = js ''copilot'', stateFile = js ''/tmp/s'',
         promptPatterns = DEFAULT_PROMPTS, copilotArgs = []\<rparr>"
  let ?ws = "[js ''--state-file'', js ''/tmp/s'', js ''--copilot'']"
  have f: "js ''--copilot'' \<in> set wrapper_flags" by (simp add: wrapper_flags_def)
  have ne1: "js ''--state-file'' \<noteq> js ''--copilot''" by (simp add: js_def)
  have ne2: "js ''/tmp/s'' \<noteq> []" by (simp add: js_def)
  have ne3: "js ''--'' \<notin> set ?ws" by (simp add: js_def)
  have nes: "[] \<noteq> js ''--''" "[] \<noteq> js ''--copilot''" "[] \<noteq> js ''--state-file''"
    "[] \<noteq> js ''--prompt-regex''" "[] \<noteq> js ''--help''"
    by (simp_all add: js_def)
  have d: "default_stateFile ?env = js ''/home/u/.copilot/hooks-state.json''"
    by (simp add: default_stateFile_def)
  have hyp: "2 < length ?ws \<and> ?ws ! 2 = js ''--copilot''
      \<and> (Suc 2 = length ?ws \<or> ?ws ! Suc 2 = [])"
    by simp
  note t = C10_flag_without_value [OF f, where ws = ?ws and i = 2
      and mk = "\<lambda>s. None" and acc = ?acc and env = ?env and rest = "[js ''--version'']"]
  note t2 = C10_flag_without_value [OF f, where env = ?env and rest = "[]"]
  note a1 = t [THEN conjunct1, THEN mp, OF hyp]
  have a2: "parseArgs_loop (\<lambda>s. None) ?ws (Suc 2) ?acc = Inr ?acc"
    by (rule parseArgs_loop_end) simp
  from a1 a2 have a: "parseArgs_loop (\<lambda>s. None) ?ws 2 ?acc = Inr ?acc" by simp
  have step: "parseArgs_loop (\<lambda>s. None) ?ws 0
        \<lparr>copilot = js ''copilot'', stateFile = js ''/home/u/.copilot/hooks-state.json'',
         promptPatterns = DEFAULT_PROMPTS, copilotArgs = []\<rparr>
      = parseArgs_loop (\<lambda>s. None) ?ws 2 ?acc"
    using ne1 ne2 by (subst parseArgs_loop_step) (simp_all add: numeral_2_eq_2)
  have b: "parseArgs ?env ?ws = Inr ?acc"
    using ne3 by (simp add: parseArgs_def d step a)
  from t [THEN conjunct2, THEN conjunct2, THEN conjunct2, THEN conjunct1]
  have c: "parseArgs ?env [js ''--copilot'', js ''--'', js ''--version'']
     = Inr \<lparr>copilot = js ''copilot'', stateFile = js ''/home/u/.copilot/hooks-state.json'',
            promptPatterns = DEFAULT_PROMPTS, copilotArgs = [js ''--version'']\<rparr>"
    by (simp only: d)
  have e0: "parseArgs ?env [[]]
     = Inr \<lparr>copilot = js ''copilot'', stateFile = js ''/home/u/.copilot/hooks-state.json'',
            promptPatterns = DEFAULT_PROMPTS, copilotArgs = []\<rparr>"
    using nes by (simp add: parseArgs_def d parseArgs_loop_step parseArgs_loop_end)
  from t2 [THEN conjunct2, THEN conjunct2, THEN conjunct2, THEN conjunct2] e0
  have e: "parseArgs ?env [js ''--copilot'', []]
     = Inr \<lparr>copilot = js ''copilot'', stateFile = js ''/home/u/.copilot/hooks-state.json'',
            promptPatterns = DEFAULT_PROMPTS, copilotArgs = []\<rparr>"
    by simp
  from f a b c e show ?thesis by blast
qed

end
